theory Spec2Isabelle
  imports Main "HOL-Library.Signed_Division"
begin

section \<open>Machine integers\<close>

text \<open>
  Go's \<^verbatim>\<open>int64\<close> is modelled by \<open>int\<close> with the two's-complement wrap-around
  written out after every arithmetic operation. Go's \<^verbatim>\<open>/\<close> on integers truncates
  towards zero, which is \<open>sdiv\<close>.
\<close>

definition wrap64 :: "int \<Rightarrow> int" where
  "wrap64 x = (x + 2 ^ 63) mod 2 ^ 64 - 2 ^ 63"

definition add64 :: "int \<Rightarrow> int \<Rightarrow> int" where
  "add64 x y = wrap64 (x + y)"

definition sub64 :: "int \<Rightarrow> int \<Rightarrow> int" where
  "sub64 x y = wrap64 (x - y)"

definition mul64 :: "int \<Rightarrow> int \<Rightarrow> int" where
  "mul64 x y = wrap64 (x * y)"

definition div64 :: "int \<Rightarrow> int \<Rightarrow> int" where
  "div64 x y = wrap64 (x sdiv y)"

section \<open>Configuration constants\<close>

text \<open>
  \<^verbatim>\<open>const NUM_PARTS = 4\<close> and \<^verbatim>\<open>const MAX_RETRIES = 3\<close>. The functions below take
  the part count \<open>n\<close> and the retry budget \<open>r\<close> as arguments, so that the README's
  "you can customize the number of parts" is covered; the program itself runs them at
  \<open>NUM_PARTS\<close> and \<open>MAX_RETRIES\<close>.
\<close>

definition NUM_PARTS :: nat where
  "NUM_PARTS = 4"

definition MAX_RETRIES :: nat where
  "MAX_RETRIES = 3"

section \<open>Range planning (first loop of downloadFile)\<close>

text \<open>
  The body of the loop \<^verbatim>\<open>for i := 0; i < NUM_PARTS; i++\<close>: the pair
  \<^verbatim>\<open>(ranges[i][0], ranges[i][1])\<close> computed at index \<open>i\<close>.
\<close>

definition partRange :: "nat \<Rightarrow> int \<Rightarrow> int \<Rightarrow> nat \<Rightarrow> int \<times> int" where
  "partRange n totalSize partSize i =
     (let start = mul64 (wrap64 (int i)) partSize;
          end = (if i = n - 1 then sub64 totalSize 1
                 else sub64 (add64 start partSize) 1)
      in (start, end))"

function planLoop :: "nat \<Rightarrow> int \<Rightarrow> int \<Rightarrow> nat \<Rightarrow> (int \<times> int) list \<Rightarrow> (int \<times> int) list" where
  "planLoop n totalSize partSize i ranges =
     (if i < n
      then planLoop n totalSize partSize (i + 1) (ranges[i := partRange n totalSize partSize i])
      else ranges)"
  by pat_completeness auto
termination
  by (relation "measure (\<lambda>(n, t, p, i, rs). n - i)") auto

declare planLoop.simps [simp del]

text \<open>
  \<^verbatim>\<open>var ranges [NUM_PARTS][2]int64\<close> is zero-initialised; \<^verbatim>\<open>partSize := totalSize / NUM_PARTS\<close>.
  (For \<open>n = 0\<close> the Go compiler rejects the constant division; the model is meant for
  \<open>n \<ge> 1\<close>.)
\<close>

definition planRanges :: "nat \<Rightarrow> int \<Rightarrow> (int \<times> int) list" where
  "planRanges n totalSize =
     planLoop n totalSize (div64 totalSize (int n)) 0 (replicate n (0, 0))"

definition rangeLen :: "int \<times> int \<Rightarrow> int" where
  "rangeLen r = snd r - fst r + 1"

section \<open>Strings and numbers of the standard library\<close>

text \<open>
  Go strings and byte slices are byte sequences, as \<open>string\<close> is. \<open>itoa\<close> is the
  \<^verbatim>\<open>%d\<close> verb of \<^verbatim>\<open>fmt\<close> (and \<^verbatim>\<open>strconv.Itoa\<close>).
\<close>

type_synonym bytes = string

definition digit_char :: "nat \<Rightarrow> char" where
  "digit_char d = ''0123456789'' ! d"

fun digits10 :: "nat \<Rightarrow> string" where
  "digits10 k = (if k < 10 then [digit_char k] else digits10 (k div 10) @ [digit_char (k mod 10)])"

declare digits10.simps [simp del]

definition itoa :: "int \<Rightarrow> string" where
  "itoa i = (if i < 0 then CHR ''-'' # digits10 (nat (- i)) else digits10 (nat i))"

text \<open>
  \<^verbatim>\<open>strconv.ParseInt(s, 10, 64)\<close>: an optional sign, then one or more decimal digits;
  a value outside the 64-bit signed range is an error (\<open>None\<close>).
\<close>

definition is_digit :: "char \<Rightarrow> bool" where
  "is_digit c = (c \<in> set ''0123456789'')"

definition digit_val :: "char \<Rightarrow> nat" where
  "digit_val c = (of_char c :: nat) - 48"

definition digits_val :: "string \<Rightarrow> nat" where
  "digits_val ds = foldl (\<lambda>a c. 10 * a + digit_val c) 0 ds"

definition unsigned_part :: "string \<Rightarrow> bool \<times> string" where
  "unsigned_part s =
     (case s of
        [] \<Rightarrow> (False, [])
      | c # cs \<Rightarrow>
          if c = CHR ''+'' then (False, cs)
          else if c = CHR ''-'' then (True, cs)
          else (False, s))"

definition ParseInt :: "string \<Rightarrow> int option" where
  "ParseInt s =
     (let neg = fst (unsigned_part s); ds = snd (unsigned_part s) in
      if ds = [] then None
      else if list_all is_digit ds then
        (let v = int (digits_val ds) in
         if neg then (if 2 ^ 63 < v then None else Some (- v))
         else (if 2 ^ 63 \<le> v then None else Some v))
      else None)"

text \<open>\<^verbatim>\<open>path.Base\<close> of the standard library.\<close>

definition path_Base :: "string \<Rightarrow> string" where
  "path_Base p =
     (if p = [] then ''.''
      else
        (let stripped = rev (dropWhile (\<lambda>c. c = CHR ''/'') (rev p));
             element = rev (takeWhile (\<lambda>c. c \<noteq> CHR ''/'') (rev stripped))
         in if element = [] then ''/'' else element))"

section \<open>The world outside the program\<close>

text \<open>
  HTTP headers by canonical name; \<^verbatim>\<open>Header.Get\<close> returns the empty string for a
  header that is absent.
\<close>

type_synonym header = "string \<rightharpoonup> string"

definition header_Get :: "header \<Rightarrow> string \<Rightarrow> string" where
  "header_Get h k = (case h k of None \<Rightarrow> [] | Some v \<Rightarrow> v)"

text \<open>
  A response: its status code, its headers, and its body as the bytes the reader
  delivers followed, possibly, by a read error.
\<close>

record response =
  StatusCode :: nat
  Header :: header
  Body :: bytes
  BodyErr :: "string option"

datatype do_result = DoErr string | DoResp response

text \<open>
  Everything the program asks of its environment is a field of \<open>world\<close>:
  \<^item> \<open>new_request method url\<close>: the error of \<^verbatim>\<open>http.NewRequest\<close>, if any;
  \<^item> \<open>do_head k url\<close>: the server's answer to the \<open>k\<close>-th HEAD request of the run;
  \<^item> \<open>do_get partNum attempt url (start, end)\<close>: the server's answer to the GET of
    that part and attempt, whose Range header asks for \<open>start\<close> to \<open>end\<close>;
  \<^item> \<open>ctx_done partNum attempt\<close>: the context is cancelled or past its deadline while
    that request is in flight, and \<open>ctx_err\<close> is the error the client then returns;
  \<^item> \<open>create_err name\<close>: the error of \<^verbatim>\<open>os.Create\<close> on that name, if any;
  \<^item> \<open>write_limit name\<close>: the named file takes that many bytes, and a write past them
    fails with the given error;
  \<^item> \<open>parse_media_type\<close>, \<open>extensions_by_type\<close>: the \<^verbatim>\<open>mime\<close> package;
  \<^item> \<open>rand_int64\<close>: the value \<^verbatim>\<open>rand.Int64()\<close> returns.
\<close>

record world =
  new_request :: "string \<Rightarrow> string \<Rightarrow> string option"
  do_head :: "nat \<Rightarrow> string \<Rightarrow> do_result"
  do_get :: "nat \<Rightarrow> nat \<Rightarrow> string \<Rightarrow> int \<times> int \<Rightarrow> do_result"
  ctx_done :: "nat \<Rightarrow> nat \<Rightarrow> bool"
  ctx_err :: string
  create_err :: "string \<Rightarrow> string option"
  write_limit :: "string \<Rightarrow> (nat \<times> string) option"
  parse_media_type :: "string \<Rightarrow> (string \<times> (string \<rightharpoonup> string)) option"
  extensions_by_type :: "string \<Rightarrow> string list option"
  rand_int64 :: int

section \<open>Errors, events and the program state\<close>

text \<open>One constructor for each \<^verbatim>\<open>fmt.Errorf\<close> of the source, with its arguments.\<close>

datatype error =
    CreateHeadRequestFailed string
  | PerformHeadRequestFailed string
  | Non200Status nat
  | ContentLengthMissing
  | InvalidContentLength string
  | GetHeadersFailed error
  | GetSizeFailed error
  | PartCreateRequestFailed nat string
  | PartGetFailed nat nat string
  | PartBadStatus nat nat
  | PartCreateTempFailed nat string
  | PartWriteTempFailed nat string
  | CreateOutputFailed string
  | OpenTempFailed string
  | WriteOutputFailed string string

text \<open>
  What the run does to the outside, in order: a HEAD request, the GET of a part at an
  attempt with its Range header, a \<^verbatim>\<open>time.Sleep\<close> of a part for a number of
  seconds, a file created, a file removed.
\<close>

datatype event =
    EvHead string
  | EvGet nat nat string
  | EvSleep nat nat
  | EvCreate string
  | EvRemove string

text \<open>
  The state threaded through the run: the file system, the two channels (oldest
  message first) and the events so far.
\<close>

record state =
  fs :: "string \<rightharpoonup> bytes"
  tempFiles :: "string list"
  errChan :: "error list"
  trace :: "event list"

definition init_state :: state where
  "init_state = \<lparr>fs = Map.empty, tempFiles = [], errChan = [], trace = []\<rparr>"

definition emit :: "event \<Rightarrow> state \<Rightarrow> state" where
  "emit ev st = st\<lparr>trace := trace st @ [ev]\<rparr>"

definition send_err :: "error \<Rightarrow> state \<Rightarrow> state" where
  "send_err e st = st\<lparr>errChan := errChan st @ [e]\<rparr>"

definition send_temp :: "string \<Rightarrow> state \<Rightarrow> state" where
  "send_temp name st = st\<lparr>tempFiles := tempFiles st @ [name]\<rparr>"

definition is_head :: "event \<Rightarrow> bool" where
  "is_head ev = (case ev of EvHead _ \<Rightarrow> True | _ \<Rightarrow> False)"

text \<open>
  \<^verbatim>\<open>http.DefaultClient.Do\<close> for a HEAD request, and for a GET request built with
  \<^verbatim>\<open>http.NewRequestWithContext(ctx, ...)\<close>: a request whose context is done fails
  with the context's error.
\<close>

definition Do_head :: "world \<Rightarrow> string \<Rightarrow> state \<Rightarrow> do_result \<times> state" where
  "Do_head w url st =
     (do_head w (length (filter is_head (trace st))) url, emit (EvHead url) st)"

definition rangeHeader :: "int \<Rightarrow> int \<Rightarrow> string" where
  "rangeHeader start end = ''bytes='' @ itoa start @ ''-'' @ itoa end"

definition get_result :: "world \<Rightarrow> nat \<Rightarrow> nat \<Rightarrow> string \<Rightarrow> int \<Rightarrow> int \<Rightarrow> do_result" where
  "get_result w partNum attempt url start end =
     (if ctx_done w partNum attempt then DoErr (ctx_err w)
      else do_get w partNum attempt url (start, end))"

definition Do_get :: "world \<Rightarrow> nat \<Rightarrow> nat \<Rightarrow> string \<Rightarrow> int \<Rightarrow> int \<Rightarrow> state \<Rightarrow> do_result \<times> state" where
  "Do_get w partNum attempt url start end st =
     (get_result w partNum attempt url start end,
      emit (EvGet partNum attempt (rangeHeader start end)) st)"

text \<open>The state after the GET of a part and attempt has been sent.\<close>

abbreviation sent_get :: "nat \<Rightarrow> nat \<Rightarrow> int \<Rightarrow> int \<Rightarrow> state \<Rightarrow> state" where
  "sent_get p a s e st \<equiv> emit (EvGet p a (rangeHeader s e)) st"

text \<open>
  \<^verbatim>\<open>os.Create\<close> truncates or creates the file; \<^verbatim>\<open>io.Copy\<close> appends the bytes read
  to the destination and returns the first error, of the write or of the read;
  \<^verbatim>\<open>os.Remove\<close> deletes the file. A file is known by its path as the program
  writes it: \<^verbatim>\<open>part-1.tmp\<close> and \<^verbatim>\<open>./part-1.tmp\<close> are two keys of \<open>fs\<close> though
  one file on disk. What is stated of the content of a file therefore assumes that
  no other path of the run names that file.
\<close>

definition os_Create :: "world \<Rightarrow> string \<Rightarrow> state \<Rightarrow> string option \<times> state" where
  "os_Create w name st =
     (case create_err w name of
        Some e \<Rightarrow> (Some e, st)
      | None \<Rightarrow> (None, emit (EvCreate name) (st\<lparr>fs := (fs st)(name \<mapsto> [])\<rparr>)))"

definition file_bytes :: "state \<Rightarrow> string \<Rightarrow> bytes" where
  "file_bytes st name = (case fs st name of None \<Rightarrow> [] | Some b \<Rightarrow> b)"

definition io_Copy :: "world \<Rightarrow> string \<Rightarrow> bytes \<Rightarrow> string option \<Rightarrow> state \<Rightarrow> string option \<times> state" where
  "io_Copy w dst src srcErr st =
     (let old = file_bytes st dst in
      case write_limit w dst of
        None \<Rightarrow> (srcErr, st\<lparr>fs := (fs st)(dst \<mapsto> old @ src)\<rparr>)
      | Some (cap, e) \<Rightarrow>
          if length old + length src \<le> cap
          then (srcErr, st\<lparr>fs := (fs st)(dst \<mapsto> old @ src)\<rparr>)
          else (Some e, st\<lparr>fs := (fs st)(dst \<mapsto> old @ take (cap - length old) src)\<rparr>))"

definition os_Remove :: "string \<Rightarrow> state \<Rightarrow> state" where
  "os_Remove name st = emit (EvRemove name) (st\<lparr>fs := (fs st)(name := None)\<rparr>)"

section \<open>Metadata and naming\<close>

record ResHeaders =
  ContentLegnth :: string
  ContentDisposition :: string
  ContentType :: string

text \<open>
  \<^verbatim>\<open>getFileHeaders\<close>. The disposition is read with
  \<^verbatim>\<open>resp.Header.Get("Content-Dispostion")\<close>, spelled as in the source.
\<close>

definition getFileHeaders :: "world \<Rightarrow> string \<Rightarrow> state \<Rightarrow> (error + ResHeaders) \<times> state" where
  "getFileHeaders w url st =
     (case new_request w ''HEAD'' url of
        Some err \<Rightarrow> (Inl (CreateHeadRequestFailed err), st)
      | None \<Rightarrow>
          (case Do_head w url st of
             (DoErr err, st1) \<Rightarrow> (Inl (PerformHeadRequestFailed err), st1)
           | (DoResp resp, st1) \<Rightarrow>
               if StatusCode resp \<noteq> 200 then (Inl (Non200Status (StatusCode resp)), st1)
               else
                 (let cl = header_Get (Header resp) ''Content-Length'' in
                  if cl = [] then (Inl ContentLengthMissing, st1)
                  else
                    (let cd = header_Get (Header resp) ''Content-Dispostion'';
                         ct = header_Get (Header resp) ''Content-Type''
                     in (Inr \<lparr>ContentLegnth = cl, ContentDisposition = cd, ContentType = ct\<rparr>,
                         st1)))))"

text \<open>\<^verbatim>\<open>detectFileType\<close>: \<^verbatim>\<open>strings.Split(contentType, ";")[0]\<close> is the text before the first semicolon.\<close>

definition detectFileType :: "world \<Rightarrow> string \<Rightarrow> string" where
  "detectFileType w contentType =
     (case extensions_by_type w (takeWhile (\<lambda>c. c \<noteq> CHR '';'') contentType) of
        None \<Rightarrow> []
      | Some extensions \<Rightarrow> (case extensions of [] \<Rightarrow> [] | extension # _ \<Rightarrow> extension))"

definition getFileName :: "world \<Rightarrow> string \<Rightarrow> string \<Rightarrow> string" where
  "getFileName w contentDisposition url =
     (let fallback =
            (if path_Base url \<noteq> [] then path_Base url
             else ''random'' @ itoa (rand_int64 w))
      in if contentDisposition \<noteq> [] then
           (case parse_media_type w contentDisposition of
              None \<Rightarrow> fallback
            | Some (mediatype, params) \<Rightarrow>
                (case params ''filename'' of Some filename \<Rightarrow> filename | None \<Rightarrow> fallback))
         else fallback)"

definition getFileSize :: "world \<Rightarrow> string \<Rightarrow> state \<Rightarrow> (error + int) \<times> state" where
  "getFileSize w url st =
     (case new_request w ''HEAD'' url of
        Some err \<Rightarrow> (Inl (CreateHeadRequestFailed err), st)
      | None \<Rightarrow>
          (case Do_head w url st of
             (DoErr err, st1) \<Rightarrow> (Inl (PerformHeadRequestFailed err), st1)
           | (DoResp resp, st1) \<Rightarrow>
               if StatusCode resp \<noteq> 200 then (Inl (Non200Status (StatusCode resp)), st1)
               else
                 (let cl = header_Get (Header resp) ''Content-Length'' in
                  if cl = [] then (Inl ContentLengthMissing, st1)
                  else
                    (case ParseInt cl of
                       None \<Rightarrow> (Inl (InvalidContentLength cl), st1)
                     | Some sz \<Rightarrow> (Inr sz, st1)))))"

section \<open>The part fetcher (downloadPart)\<close>

text \<open>
  The retry loop \<^verbatim>\<open>for attempt := 1; attempt <= MAX_RETRIES; attempt++\<close>. It ends
  either by a \<^verbatim>\<open>return\<close> after a send on \<^verbatim>\<open>errChan\<close> (\<open>Returned\<close>) or by
  leaving the loop, at \<^verbatim>\<open>break\<close> or at a false loop condition, with the current
  value of the variable \<^verbatim>\<open>resp\<close> (\<open>Exited\<close>; \<open>None\<close> is \<^verbatim>\<open>nil\<close>).
\<close>

datatype loop_exit = Returned | Exited "response option"

text \<open>
  An attempt fails when the client returns an error or the status is neither 206 nor
  200: the two tests of the loop body.
\<close>

definition attempt_fails :: "do_result \<Rightarrow> bool" where
  "attempt_fails res =
     (case res of
        DoErr err \<Rightarrow> True
      | DoResp rsp \<Rightarrow> StatusCode rsp \<noteq> 206 \<and> StatusCode rsp \<noteq> 200)"

function retryLoop ::
  "world \<Rightarrow> nat \<Rightarrow> string \<Rightarrow> int \<Rightarrow> int \<Rightarrow> nat \<Rightarrow> nat \<Rightarrow> response option \<Rightarrow> state
     \<Rightarrow> loop_exit \<times> state" where
  "retryLoop w r url start end partNum attempt resp st =
     (if attempt \<le> r then
        (case new_request w ''GET'' url of
           Some err \<Rightarrow> (Returned, send_err (PartCreateRequestFailed partNum err) st)
         | None \<Rightarrow>
             (case Do_get w partNum attempt url start end st of
                (DoErr err, st1) \<Rightarrow>
                  if attempt < r
                  then retryLoop w r url start end partNum (attempt + 1) None
                         (emit (EvSleep partNum attempt) st1)
                  else (Returned, send_err (PartGetFailed partNum attempt err) st1)
              | (DoResp rsp, st1) \<Rightarrow>
                  if StatusCode rsp \<noteq> 206 \<and> StatusCode rsp \<noteq> 200 then
                    (if attempt < r
                     then retryLoop w r url start end partNum (attempt + 1) (Some rsp)
                            (emit (EvSleep partNum attempt) st1)
                     else (Returned, send_err (PartBadStatus partNum (StatusCode rsp)) st1))
                  else (Exited (Some rsp), st1)))
      else (Exited resp, st))"
  by pat_completeness auto
termination
  by (relation "measure (\<lambda>(w, r, url, start, end, partNum, attempt, resp, st). r + 1 - attempt)")
     auto

declare retryLoop.simps [simp del]

definition tempName :: "nat \<Rightarrow> string" where
  "tempName partNum = ''part-'' @ itoa (int partNum) @ ''.tmp''"

text \<open>
  \<^verbatim>\<open>downloadPart\<close>. \<open>None\<close> is the nil-pointer panic of
  \<^verbatim>\<open>defer resp.Body.Close()\<close> when \<^verbatim>\<open>resp\<close> is nil after the loop.
\<close>

definition downloadPart ::
  "world \<Rightarrow> nat \<Rightarrow> string \<Rightarrow> int \<Rightarrow> int \<Rightarrow> nat \<Rightarrow> state \<Rightarrow> state option" where
  "downloadPart w r url start end partNum st =
     (case retryLoop w r url start end partNum 1 None st of
        (Returned, st1) \<Rightarrow> Some st1
      | (Exited None, st1) \<Rightarrow> None
      | (Exited (Some resp), st1) \<Rightarrow>
          (let tempFileName = tempName partNum in
           case os_Create w tempFileName st1 of
             (Some err, st2) \<Rightarrow> Some (send_err (PartCreateTempFailed partNum err) st2)
           | (None, st2) \<Rightarrow>
               (case io_Copy w tempFileName (Body resp) (BodyErr resp) st2 of
                  (Some err, st3) \<Rightarrow> Some (send_err (PartWriteTempFailed partNum err) st3)
                | (None, st3) \<Rightarrow> Some (send_temp tempFileName st3))))"

text \<open>
  The part number an error of \<^verbatim>\<open>downloadPart\<close> carries (its \<^verbatim>\<open>part %d:\<close> prefix),
  and the error a part reports on \<^verbatim>\<open>errChan\<close>, if it reports one.
\<close>

fun error_part :: "error \<Rightarrow> nat option" where
  "error_part (PartCreateRequestFailed partNum m) = Some partNum"
| "error_part (PartGetFailed partNum attempt m) = Some partNum"
| "error_part (PartBadStatus partNum code) = Some partNum"
| "error_part (PartCreateTempFailed partNum m) = Some partNum"
| "error_part (PartWriteTempFailed partNum m) = Some partNum"
| "error_part e = None"

definition part_error :: "world \<Rightarrow> nat \<Rightarrow> string \<Rightarrow> int \<times> int \<Rightarrow> nat \<Rightarrow> error option" where
  "part_error w r url rng partNum =
     (case downloadPart w r url (fst rng) (snd rng) partNum init_state of
        None \<Rightarrow> None
      | Some st \<Rightarrow> (case errChan st of [] \<Rightarrow> None | err # errs \<Rightarrow> Some err))"

section \<open>The orchestrator and the assembler (downloadFile)\<close>

text \<open>
  The goroutines share only the two channels and write files of different names, so a
  run is determined by the order in which they finish. \<open>sched\<close> is that order, a
  list of the indices \<open>0, \<dots>, n - 1\<close>; \<open>runParts\<close> runs
  \<^verbatim>\<open>downloadPart(ctx, url, ranges[i][0], ranges[i][1], i+1, ...)\<close> in it.
\<close>

definition well_scheduled :: "nat \<Rightarrow> nat list \<Rightarrow> bool" where
  "well_scheduled n sched = (distinct sched \<and> set sched = {0..<n})"

fun runParts ::
  "world \<Rightarrow> nat \<Rightarrow> string \<Rightarrow> (int \<times> int) list \<Rightarrow> nat list \<Rightarrow> state \<Rightarrow> state option" where
  "runParts w r url ranges [] st = Some st"
| "runParts w r url ranges (i # sched) st =
     (case downloadPart w r url (fst (ranges ! i)) (snd (ranges ! i)) (i + 1) st of
        None \<Rightarrow> None
      | Some st1 \<Rightarrow> runParts w r url ranges sched st1)"

text \<open>The loop \<^verbatim>\<open>for i := 1; i <= NUM_PARTS; i++\<close> that concatenates the parts.\<close>

function concatLoop :: "world \<Rightarrow> nat \<Rightarrow> string \<Rightarrow> nat \<Rightarrow> state \<Rightarrow> error option \<times> state" where
  "concatLoop w n filepath i st =
     (if i \<le> n then
        (let tempFileName = tempName i in
         case fs st tempFileName of
           None \<Rightarrow> (Some (OpenTempFailed tempFileName), st)
         | Some content \<Rightarrow>
             (case io_Copy w filepath content None st of
                (Some err, st1) \<Rightarrow> (Some (WriteOutputFailed tempFileName err), st1)
              | (None, st1) \<Rightarrow> concatLoop w n filepath (i + 1) (os_Remove tempFileName st1)))
      else (None, st))"
  by pat_completeness auto
termination
  by (relation "measure (\<lambda>(w, n, filepath, i, st). n + 1 - i)") auto

declare concatLoop.simps [simp del]

datatype result = Panic | Return "error option"

definition outputPath :: "world \<Rightarrow> ResHeaders \<Rightarrow> string \<Rightarrow> string \<Rightarrow> string" where
  "outputPath w fHeaders url filepath =
     filepath @ ''/'' @ getFileName w (ContentDisposition fHeaders) url
       @ detectFileType w (ContentType fHeaders)"

definition downloadFile ::
  "world \<Rightarrow> nat \<Rightarrow> nat \<Rightarrow> nat list \<Rightarrow> string \<Rightarrow> string \<Rightarrow> state \<Rightarrow> result \<times> state" where
  "downloadFile w n r sched url filepath st =
     (case getFileHeaders w url st of
        (Inl err, st1) \<Rightarrow> (Return (Some (GetHeadersFailed err)), st1)
      | (Inr fHeaders, st1) \<Rightarrow>
          (case getFileSize w url st1 of
             (Inl err, st2) \<Rightarrow> (Return (Some (GetSizeFailed err)), st2)
           | (Inr totalSize, st2) \<Rightarrow>
               (let ranges = planRanges n totalSize;
                    st3 = st2\<lparr>tempFiles := [], errChan := []\<rparr>
                in case runParts w r url ranges sched st3 of
                     None \<Rightarrow> (Panic, st3)
                   | Some st4 \<Rightarrow>
                       (case errChan st4 of
                          e # es \<Rightarrow> (Return (Some e), st4)
                        | [] \<Rightarrow>
                            (case os_Create w (outputPath w fHeaders url filepath) st4 of
                               (Some err, st5) \<Rightarrow> (Return (Some (CreateOutputFailed err)), st5)
                             | (None, st5) \<Rightarrow>
                                 (case concatLoop w n (outputPath w fHeaders url filepath) 1 st5 of
                                    (err, st6) \<Rightarrow> (Return err, st6)))))))"

text \<open>The program as built: \<^verbatim>\<open>NUM_PARTS\<close> parts, \<^verbatim>\<open>MAX_RETRIES\<close> attempts.\<close>

definition downloadFile_main ::
  "world \<Rightarrow> nat list \<Rightarrow> string \<Rightarrow> string \<Rightarrow> state \<Rightarrow> result \<times> state" where
  "downloadFile_main w sched url filepath st =
     downloadFile w NUM_PARTS MAX_RETRIES sched url filepath st"

section \<open>Servers and runs used as concrete inputs\<close>

text \<open>
  \<open>plain_world headers get\<close>: a server that answers every HEAD with status 200 and
  the given headers and every GET by \<open>get\<close>, a context that is never cancelled, and
  a file system without faults.
\<close>

definition respond :: "nat \<Rightarrow> bytes \<Rightarrow> do_result" where
  "respond code body = DoResp \<lparr>StatusCode = code, Header = Map.empty, Body = body, BodyErr = None\<rparr>"

definition plain_world ::
  "header \<Rightarrow> (nat \<Rightarrow> nat \<Rightarrow> string \<Rightarrow> int \<times> int \<Rightarrow> do_result) \<Rightarrow> world" where
  "plain_world headers get =
     \<lparr>new_request = (\<lambda>method url. None),
      do_head = (\<lambda>k url. DoResp \<lparr>StatusCode = 200, Header = headers, Body = [], BodyErr = None\<rparr>),
      do_get = get,
      ctx_done = (\<lambda>partNum attempt. False),
      ctx_err = ''context canceled'',
      create_err = (\<lambda>name. None),
      write_limit = (\<lambda>name. None),
      parse_media_type = (\<lambda>v. None),
      extensions_by_type = (\<lambda>t. None),
      rand_int64 = 7\<rparr>"

text \<open>
  The bytes \<open>start\<close> to \<open>end\<close> of a content, and a server that honours byte ranges
  as RFC 7233 has it: a satisfiable range gets status 206 and its bytes, a range that
  starts past the end gets status 416, and a Range header that is not well formed
  (\<open>end < start\<close>) is ignored, so that the answer is status 200 with the whole
  content.
\<close>

definition slice :: "bytes \<Rightarrow> int \<Rightarrow> int \<Rightarrow> bytes" where
  "slice content start end = take (nat (end - start + 1)) (drop (nat start) content)"

definition range_get :: "bytes \<Rightarrow> nat \<Rightarrow> nat \<Rightarrow> string \<Rightarrow> int \<times> int \<Rightarrow> do_result" where
  "range_get content partNum attempt url rng =
     (if 0 \<le> fst rng \<and> fst rng \<le> snd rng then
        (if fst rng < int (length content)
         then respond 206 (slice content (fst rng) (snd rng))
         else respond 416 [])
      else respond 200 content)"

definition file_server :: "bytes \<Rightarrow> world" where
  "file_server content =
     plain_world [''Content-Length'' \<mapsto> itoa (int (length content))] (range_get content)"

text \<open>
  A server whose second answer is status 503 and whose other requests fail in transport;
  a server that ignores the Range header and always sends the whole content; and the
  range-honouring server with a context that is cancelled before the first request.
\<close>

definition refusing_get :: "nat \<Rightarrow> nat \<Rightarrow> string \<Rightarrow> int \<times> int \<Rightarrow> do_result" where
  "refusing_get partNum attempt url rng =
     (if attempt = 2 then respond 503 [] else DoErr ''connection refused'')"

definition whole_get :: "bytes \<Rightarrow> nat \<Rightarrow> nat \<Rightarrow> string \<Rightarrow> int \<times> int \<Rightarrow> do_result" where
  "whole_get content partNum attempt url rng = respond 200 content"

definition cancelled_world :: "bytes \<Rightarrow> world" where
  "cancelled_world content = (file_server content)\<lparr>ctx_done := (\<lambda>partNum attempt. True)\<rparr>"

text \<open>
  A server on which parts 1 and 3 fail in transport at every attempt, while parts 2
  and 4 are served; and a server that sends a Content-Disposition header with a file
  name, with the \<^verbatim>\<open>mime.ParseMediaType\<close> that reads it.
\<close>

definition flaky_get :: "bytes \<Rightarrow> nat \<Rightarrow> nat \<Rightarrow> string \<Rightarrow> int \<times> int \<Rightarrow> do_result" where
  "flaky_get content partNum attempt url rng =
     (if partNum = 1 then DoErr ''connection reset''
      else if partNum = 3 then DoErr ''connection reset''
      else range_get content partNum attempt url rng)"

definition flaky_server :: "bytes \<Rightarrow> world" where
  "flaky_server content =
     plain_world [''Content-Length'' \<mapsto> itoa (int (length content))] (flaky_get content)"

definition disposition_server :: world where
  "disposition_server =
     (plain_world [''Content-Length'' \<mapsto> ''12'',
                   ''Content-Disposition'' \<mapsto> ''attachment; filename=report.pdf'']
        (range_get ''hello world!''))
       \<lparr>parse_media_type :=
          (\<lambda>v. if v = ''attachment; filename=report.pdf''
                then Some (''attachment'', [''filename'' \<mapsto> ''report.pdf''])
                else None)\<rparr>"

text \<open>
  A server that honours well-formed ranges and answers any other Range header with
  status 416, as \<^verbatim>\<open>http.ServeContent\<close> of the Go library does.
\<close>

definition strict_get :: "bytes \<Rightarrow> nat \<Rightarrow> nat \<Rightarrow> string \<Rightarrow> int \<times> int \<Rightarrow> do_result" where
  "strict_get content partNum attempt url rng =
     (if 0 \<le> fst rng \<and> fst rng \<le> snd rng \<and> fst rng < int (length content)
      then respond 206 (slice content (fst rng) (snd rng))
      else respond 416 [])"

definition strict_server :: "bytes \<Rightarrow> world" where
  "strict_server content =
     plain_world [''Content-Length'' \<mapsto> itoa (int (length content))] (strict_get content)"

text \<open>
  A server whose response is accepted and whose body is cut after two bytes by the
  context's cancellation: the read returns \<^verbatim>\<open>context canceled\<close>.
\<close>

definition interrupted_get :: "bytes \<Rightarrow> nat \<Rightarrow> nat \<Rightarrow> string \<Rightarrow> int \<times> int \<Rightarrow> do_result" where
  "interrupted_get content partNum attempt url rng =
     DoResp \<lparr>StatusCode = 206, Header = Map.empty,
             Body = take 2 (slice content (fst rng) (snd rng)),
             BodyErr = Some ''context canceled''\<rparr>"

definition interrupted_world :: "bytes \<Rightarrow> world" where
  "interrupted_world content =
     plain_world [''Content-Length'' \<mapsto> itoa (int (length content))] (interrupted_get content)"

section \<open>Facts about the planner\<close>

lemma wrap64_id: "- (2 ^ 63) \<le> x \<Longrightarrow> x < 2 ^ 63 \<Longrightarrow> wrap64 x = x"
  by (simp add: wrap64_def)

lemma planLoop_eq:
  "i \<le> n \<Longrightarrow> length rs = n \<Longrightarrow>
   planLoop n t p i rs = take i rs @ map (partRange n t p) [i..<n]"
proof (induction n t p i rs rule: planLoop.induct)
  case (1 n t p i rs)
  show ?case
  proof (cases "i < n")
    case True
    then have step: "planLoop n t p i rs
        = take (i + 1) (rs[i := partRange n t p i]) @ map (partRange n t p) [i + 1..<n]"
      using 1 by (subst planLoop.simps) simp
    have "take (i + 1) (rs[i := partRange n t p i]) = take i rs @ [partRange n t p i]"
      using True 1(3) by (simp add: take_Suc_conv_app_nth)
    moreover have "[i..<n] = i # [i + 1..<n]"
      using True by (simp add: upt_conv_Cons)
    ultimately show ?thesis using step by simp
  next
    case False
    then have "i = n" using 1(2) by simp
    then show ?thesis using 1(3) by (subst planLoop.simps) simp
  qed
qed

lemma planRanges_map:
  "planRanges n t = map (partRange n t (div64 t (int n))) [0..<n]"
  by (simp add: planRanges_def planLoop_eq)

lemma length_planRanges: "length (planRanges n t) = n"
  by (simp add: planRanges_map)

lemma div64_pos:
  assumes "0 < t" "t < 2 ^ 63" "1 \<le> n"
  shows "div64 t (int n) = t div int n"
proof -
  have "t sdiv int n = t div int n"
    using assms by (simp add: signed_divide_int_def sgn_if)
  moreover have "0 \<le> t div int n" using assms by (simp add: pos_imp_zdiv_nonneg_iff)
  moreover have "t div int n \<le> t"
    using zdiv_mono2 [of t 1 "int n"] assms by simp
  ultimately show ?thesis using assms by (simp add: div64_def wrap64_id)
qed

lemma partRange_closed:
  assumes "0 < t" "t < 2 ^ 63" "1 \<le> n" "i < n"
  shows "partRange n t (div64 t (int n)) i =
          (int i * (t div int n),
           if i = n - 1 then t - 1 else (int i + 1) * (t div int n) - 1)"
proof -
  define b where "b = t div int n"
  have w: "wrap64 x = x" if "- 1 \<le> x" "x \<le> t" for x
    using that assms by (simp add: wrap64_id)
  have b0: "0 \<le> b" using assms by (simp add: b_def pos_imp_zdiv_nonneg_iff)
  have nb: "int n * b \<le> t"
  proof -
    have "int n * (t div int n) + t mod int n = t" by (rule mult_div_mod_eq)
    moreover have "0 \<le> t mod int n" using assms by simp
    ultimately show ?thesis unfolding b_def by linarith
  qed
  have "(int i + 1) * b \<le> int n * b"
    using assms b0 by (simp add: mult_right_mono)
  then have ib1: "(int i + 1) * b \<le> t" using nb by linarith
  have i0: "0 \<le> int i * b" using b0 by simp
  have ib: "int i * b \<le> t" using ib1 b0 by (simp add: algebra_simps)
  have st: "mul64 (wrap64 (int i)) b = int i * b"
  proof (cases "b = 0")
    case True
    then show ?thesis by (simp add: mul64_def wrap64_def)
  next
    case False
    have "t < int n \<Longrightarrow> b = 0"
      using assms unfolding b_def by (simp add: div_pos_pos_trivial)
    then have "int n \<le> t" using False by linarith
    then have "wrap64 (int i) = int i" using assms by (simp add: w)
    moreover have "wrap64 (int i * b) = int i * b"
      using i0 ib by (intro w) simp_all
    ultimately show ?thesis by (simp add: mul64_def)
  qed
  have e1: "sub64 t 1 = t - 1" using assms by (simp add: sub64_def w)
  have s1: "int i * b + b = (int i + 1) * b" by (simp add: algebra_simps)
  have p1: "0 \<le> (int i + 1) * b" using b0 by simp
  have "wrap64 ((int i + 1) * b) = (int i + 1) * b"
    using p1 ib1 by (intro w) simp_all
  then have a1: "add64 (int i * b) b = (int i + 1) * b"
    using s1 by (simp add: add64_def)
  have "wrap64 ((int i + 1) * b - 1) = (int i + 1) * b - 1"
    using p1 ib1 by (intro w) simp_all
  then have e2: "sub64 (add64 (int i * b) b) 1 = (int i + 1) * b - 1"
    using a1 by (simp add: sub64_def)
  show ?thesis
    using st e1 e2 assms unfolding partRange_def Let_def div64_pos [OF assms(1-3)] b_def
    by simp
qed

lemma sum_list_const: "sum_list (map (\<lambda>_. c) xs) = int (length xs) * (c::int)"
  by (induction xs) (simp_all add: algebra_simps)

section \<open>Claims about the planner\<close>

text \<open>
  Claim C2 (range planning). For every \<open>totalSize > 0\<close> (a 64-bit signed value) and
  every part count \<open>n \<ge> 1\<close>, with \<open>base = totalSize div n\<close>: the planner yields
  \<open>n\<close> ranges; range \<open>i < n - 1\<close> is \<open>[i * base, (i + 1) * base - 1]\<close>; the final
  range is \<open>[(n - 1) * base, totalSize - 1]\<close>; the first range starts at 0, the last
  ends at \<open>totalSize - 1\<close>, each range ends just before the next starts, no two
  ranges share a byte, and the lengths add up to \<open>totalSize\<close>.
\<close>

theorem planRanges_partition:
  assumes "0 < totalSize" "totalSize < 2 ^ 63" "1 \<le> n"
  shows "(let base = totalSize div int n; rs = planRanges n totalSize in
           length rs = n \<and>
           (\<forall>i. i < n - 1 \<longrightarrow> rs ! i = (int i * base, (int i + 1) * base - 1)) \<and>
           rs ! (n - 1) = (int (n - 1) * base, totalSize - 1) \<and>
           fst (rs ! 0) = 0 \<and>
           snd (rs ! (n - 1)) = totalSize - 1 \<and>
           (\<forall>i. i + 1 < n \<longrightarrow> snd (rs ! i) + 1 = fst (rs ! (i + 1))) \<and>
           (\<forall>i j. i < j \<and> j < n \<longrightarrow>
              {fst (rs ! i)..snd (rs ! i)} \<inter> {fst (rs ! j)..snd (rs ! j)} = {}) \<and>
           sum_list (map rangeLen rs) = totalSize)"
proof -
  define base where "base = totalSize div int n"
  define rs where "rs = planRanges n totalSize"
  have b0: "0 \<le> base"
    using assms by (simp add: base_def pos_imp_zdiv_nonneg_iff)
  have nth: "rs ! i = (int i * base, if i = n - 1 then totalSize - 1 else (int i + 1) * base - 1)"
    if "i < n" for i
    using that partRange_closed [OF assms that]
    by (simp add: rs_def planRanges_map base_def)
  have len: "length rs = n" by (simp add: rs_def length_planRanges)
  have inner: "\<forall>i. i < n - 1 \<longrightarrow> rs ! i = (int i * base, (int i + 1) * base - 1)"
    using nth by simp
  have final: "rs ! (n - 1) = (int (n - 1) * base, totalSize - 1)"
    using nth [of "n - 1"] assms by simp
  have first: "fst (rs ! 0) = 0" using nth [of 0] assms by simp
  have contig: "\<forall>i. i + 1 < n \<longrightarrow> snd (rs ! i) + 1 = fst (rs ! (i + 1))"
  proof (intro allI impI)
    fix i assume i: "i + 1 < n"
    then have "i < n - 1" by simp
    then have "snd (rs ! i) = (int i + 1) * base - 1" using inner by simp
    moreover have "fst (rs ! (i + 1)) = (int i + 1) * base"
      using i nth [of "i + 1"] by (simp add: algebra_simps)
    ultimately show "snd (rs ! i) + 1 = fst (rs ! (i + 1))" by simp
  qed
  have disj: "\<forall>i j. i < j \<and> j < n \<longrightarrow>
      {fst (rs ! i)..snd (rs ! i)} \<inter> {fst (rs ! j)..snd (rs ! j)} = {}"
  proof (intro allI impI)
    fix i j assume ij: "i < j \<and> j < n"
    then have "int i + 1 \<le> int j" by simp
    then have "(int i + 1) * base \<le> int j * base"
      using b0 by (rule mult_right_mono)
    moreover have "i < n - 1" using ij by linarith
    then have "snd (rs ! i) = (int i + 1) * base - 1"
      using inner by simp
    moreover have "fst (rs ! j) = int j * base" using ij nth [of j] by simp
    ultimately have "snd (rs ! i) < fst (rs ! j)" by linarith
    then show "{fst (rs ! i)..snd (rs ! i)} \<inter> {fst (rs ! j)..snd (rs ! j)} = {}"
      by auto
  qed
  have total: "sum_list (map rangeLen rs) = totalSize"
  proof -
    have split: "[0..<n] = [0..<n - 1] @ [n - 1]"
      using assms by (cases n) simp_all
    have "map rangeLen rs = map (\<lambda>i. rangeLen (rs ! i)) [0..<n]"
      by (rule nth_equalityI) (simp_all add: len)
    also have "\<dots> = map (\<lambda>i. rangeLen (rs ! i)) [0..<n - 1] @ [rangeLen (rs ! (n - 1))]"
      by (subst split) simp
    also have "map (\<lambda>i. rangeLen (rs ! i)) [0..<n - 1] = map (\<lambda>_. base) [0..<n - 1]"
      using inner by (simp add: rangeLen_def algebra_simps)
    finally have "sum_list (map rangeLen rs) = int (n - 1) * base + rangeLen (rs ! (n - 1))"
      by (simp add: sum_list_const)
    then show ?thesis using final by (simp add: rangeLen_def)
  qed
  show ?thesis
    unfolding Let_def base_def [symmetric] rs_def [symmetric]
    using len inner final first contig disj total by simp
qed

theorem planRanges_partition_witness:
  "(0::int) < 101 \<and> (101::int) < 2 ^ 63 \<and> (1::nat) \<le> 4 \<and>
   length (planRanges 4 101) = 4 \<and>
   planRanges 4 101 ! 0 = (0, 24) \<and>
   planRanges 4 101 ! 3 = (75, 100) \<and>
   snd (planRanges 4 101 ! 0) + 1 = fst (planRanges 4 101 ! 1) \<and>
   {fst (planRanges 4 101 ! 0)..snd (planRanges 4 101 ! 0)}
     \<inter> {fst (planRanges 4 101 ! 1)..snd (planRanges 4 101 ! 1)} = {} \<and>
   sum_list (map rangeLen (planRanges 4 101)) = 101"
proof -
  have h: "(0::int) < 101" "(101::int) < 2 ^ 63" "(1::nat) \<le> 4" by simp_all
  note t = planRanges_partition [OF h, unfolded Let_def]
  have a: "planRanges 4 101 ! 0 = (0, 24)"
    using t by simp
  have c: "snd (planRanges 4 101 ! 0) + 1 = fst (planRanges 4 101 ! 1)"
    using t by simp
  have d: "{fst (planRanges 4 101 ! 0)..snd (planRanges 4 101 ! 0)}
     \<inter> {fst (planRanges 4 101 ! 1)..snd (planRanges 4 101 ! 1)} = {}"
    using t by simp
  show ?thesis using h t a c d by simp
qed

section \<open>Facts about the part fetcher\<close>

lemma emit_simps [simp]:
  "fs (emit ev st) = fs st" "tempFiles (emit ev st) = tempFiles st"
  "errChan (emit ev st) = errChan st" "trace (emit ev st) = trace st @ [ev]"
  by (simp_all add: emit_def)

lemma send_err_simps [simp]:
  "fs (send_err e st) = fs st" "tempFiles (send_err e st) = tempFiles st"
  "errChan (send_err e st) = errChan st @ [e]" "trace (send_err e st) = trace st"
  by (simp_all add: send_err_def)

lemma send_temp_simps [simp]:
  "fs (send_temp nm st) = fs st" "tempFiles (send_temp nm st) = tempFiles st @ [nm]"
  "errChan (send_temp nm st) = errChan st" "trace (send_temp nm st) = trace st"
  by (simp_all add: send_temp_def)



lemma retryLoop_done:
  "\<not> a \<le> r \<Longrightarrow> retryLoop w r url s e p a resp st = (Exited resp, st)"
  by (subst retryLoop.simps) simp

lemma retryLoop_no_request:
  "a \<le> r \<Longrightarrow> new_request w ''GET'' url = Some err \<Longrightarrow>
   retryLoop w r url s e p a resp st = (Returned, send_err (PartCreateRequestFailed p err) st)"
  by (subst retryLoop.simps) simp

lemma retryLoop_error_retry:
  "a < r \<Longrightarrow> new_request w ''GET'' url = None \<Longrightarrow> get_result w p a url s e = DoErr err \<Longrightarrow>
   retryLoop w r url s e p a resp st =
     retryLoop w r url s e p (a + 1) None (emit (EvSleep p a) (sent_get p a s e st))"
  by (subst retryLoop.simps) (simp add: Do_get_def)

lemma retryLoop_error_last:
  "a = r \<Longrightarrow> new_request w ''GET'' url = None \<Longrightarrow> get_result w p a url s e = DoErr err \<Longrightarrow>
   retryLoop w r url s e p a resp st =
     (Returned, send_err (PartGetFailed p a err) (sent_get p a s e st))"
  by (subst retryLoop.simps) (simp add: Do_get_def)

lemma retryLoop_status_retry:
  "a < r \<Longrightarrow> new_request w ''GET'' url = None \<Longrightarrow> get_result w p a url s e = DoResp rsp \<Longrightarrow>
   StatusCode rsp \<noteq> 206 \<Longrightarrow> StatusCode rsp \<noteq> 200 \<Longrightarrow>
   retryLoop w r url s e p a resp st =
     retryLoop w r url s e p (a + 1) (Some rsp) (emit (EvSleep p a) (sent_get p a s e st))"
  by (subst retryLoop.simps) (simp add: Do_get_def)

lemma retryLoop_status_last:
  "a = r \<Longrightarrow> new_request w ''GET'' url = None \<Longrightarrow> get_result w p a url s e = DoResp rsp \<Longrightarrow>
   StatusCode rsp \<noteq> 206 \<Longrightarrow> StatusCode rsp \<noteq> 200 \<Longrightarrow>
   retryLoop w r url s e p a resp st =
     (Returned, send_err (PartBadStatus p (StatusCode rsp)) (sent_get p a s e st))"
  by (subst retryLoop.simps) (simp add: Do_get_def)

lemma retryLoop_accept:
  "a \<le> r \<Longrightarrow> new_request w ''GET'' url = None \<Longrightarrow> get_result w p a url s e = DoResp rsp \<Longrightarrow>
   StatusCode rsp = 206 \<or> StatusCode rsp = 200 \<Longrightarrow>
   retryLoop w r url s e p a resp st = (Exited (Some rsp), sent_get p a s e st)"
  by (subst retryLoop.simps) (auto simp add: Do_get_def)

lemma retryLoop_outcome:
  assumes "a \<le> r"
  shows "\<exists>ex st'. retryLoop w r url s e p a resp st = (ex, st') \<and>
           fs st' = fs st \<and> tempFiles st' = tempFiles st \<and>
           ((ex = Returned \<and> (\<exists>err. errChan st' = errChan st @ [err] \<and> error_part err = Some p)) \<or>
            (\<exists>k rsp. ex = Exited (Some rsp) \<and> errChan st' = errChan st \<and> a \<le> k \<and> k \<le> r \<and>
               get_result w p k url s e = DoResp rsp \<and>
               (StatusCode rsp = 206 \<or> StatusCode rsp = 200) \<and>
               (\<forall>j. a \<le> j \<and> j < k \<longrightarrow> attempt_fails (get_result w p j url s e))))"
  using assms
proof (induction "r - a" arbitrary: a resp st)
  case 0
  then have ar: "a = r" by simp
  show ?case
  proof (cases "new_request w ''GET'' url")
    case (Some err)
    then show ?thesis using ar by (simp add: retryLoop_no_request)
  next
    case None
    show ?thesis
    proof (cases "get_result w p a url s e")
      case (DoErr err)
      then show ?thesis using ar None by (simp add: retryLoop_error_last)
    next
      case (DoResp rsp)
      show ?thesis
      proof (cases "StatusCode rsp = 206 \<or> StatusCode rsp = 200")
        case True
        have "retryLoop w r url s e p a resp st = (Exited (Some rsp), sent_get p a s e st)"
          using ar None DoResp True by (intro retryLoop_accept) simp_all
        then show ?thesis using ar DoResp True by auto
      next
        case False
        then have "retryLoop w r url s e p a resp st =
            (Returned, send_err (PartBadStatus p (StatusCode rsp)) (sent_get p a s e st))"
          using ar None DoResp by (intro retryLoop_status_last) simp_all
        then show ?thesis by simp
      qed
    qed
  qed
next
  case (Suc d)
  then have ar: "a < r" and d: "d = r - (a + 1)" and le: "a + 1 \<le> r" by simp_all
  show ?case
  proof (cases "new_request w ''GET'' url")
    case (Some err)
    then show ?thesis using ar by (simp add: retryLoop_no_request)
  next
    case None
    have retry: ?thesis
      if step: "\<And>st. retryLoop w r url s e p a resp st =
                 retryLoop w r url s e p (a + 1) resp' (emit (EvSleep p a) (sent_get p a s e st))"
        and fl: "attempt_fails (get_result w p a url s e)" for resp'
    proof -
      let ?st1 = "emit (EvSleep p a) (sent_get p a s e st)"
      from Suc.hyps(1) [OF d le, of resp' ?st1]
      obtain ex st' where run: "retryLoop w r url s e p (a + 1) resp' ?st1 = (ex, st')"
        and frame: "fs st' = fs ?st1" "tempFiles st' = tempFiles ?st1"
        and out: "(ex = Returned \<and> (\<exists>err. errChan st' = errChan ?st1 @ [err] \<and> error_part err = Some p)) \<or>
            (\<exists>k rsp. ex = Exited (Some rsp) \<and> errChan st' = errChan ?st1 \<and> a + 1 \<le> k \<and> k \<le> r \<and>
               get_result w p k url s e = DoResp rsp \<and>
               (StatusCode rsp = 206 \<or> StatusCode rsp = 200) \<and>
               (\<forall>j. a + 1 \<le> j \<and> j < k \<longrightarrow> attempt_fails (get_result w p j url s e)))"
        by blast
      from out show ?thesis
      proof
        assume "ex = Returned \<and> (\<exists>err. errChan st' = errChan ?st1 @ [err] \<and> error_part err = Some p)"
        then show ?thesis using run frame step by simp
      next
        assume "\<exists>k rsp. ex = Exited (Some rsp) \<and> errChan st' = errChan ?st1 \<and> a + 1 \<le> k \<and> k \<le> r \<and>
               get_result w p k url s e = DoResp rsp \<and>
               (StatusCode rsp = 206 \<or> StatusCode rsp = 200) \<and>
               (\<forall>j. a + 1 \<le> j \<and> j < k \<longrightarrow> attempt_fails (get_result w p j url s e))"
        then obtain k rsp where k: "ex = Exited (Some rsp)" "errChan st' = errChan ?st1"
          "a + 1 \<le> k" "k \<le> r" "get_result w p k url s e = DoResp rsp"
          "StatusCode rsp = 206 \<or> StatusCode rsp = 200"
          "\<forall>j. a + 1 \<le> j \<and> j < k \<longrightarrow> attempt_fails (get_result w p j url s e)"
          by blast
        have "\<forall>j. a \<le> j \<and> j < k \<longrightarrow> attempt_fails (get_result w p j url s e)"
        proof (intro allI impI)
          fix j assume "a \<le> j \<and> j < k"
          then have "j = a \<or> (a + 1 \<le> j \<and> j < k)" by auto
          then show "attempt_fails (get_result w p j url s e)" using fl k(7) by blast
        qed
        moreover have "a \<le> k" using k(3) by simp
        moreover have "retryLoop w r url s e p a resp st = (Exited (Some rsp), st')"
          using run step k(1) by simp
        moreover have "fs st' = fs st" "tempFiles st' = tempFiles st" "errChan st' = errChan st"
          using frame k(2) by simp_all
        ultimately show ?thesis using k(4,5,6) by blast
      qed
    qed
    show ?thesis
    proof (cases "get_result w p a url s e")
      case (DoErr err)
      show ?thesis
      proof (rule retry)
        show "attempt_fails (get_result w p a url s e)" using DoErr by (simp add: attempt_fails_def)
        show "\<And>st. retryLoop w r url s e p a resp st =
            retryLoop w r url s e p (a + 1) None (emit (EvSleep p a) (sent_get p a s e st))"
          using ar None DoErr by (rule retryLoop_error_retry)
      qed
    next
      case (DoResp rsp)
      show ?thesis
      proof (cases "StatusCode rsp = 206 \<or> StatusCode rsp = 200")
        case True
        have "retryLoop w r url s e p a resp st = (Exited (Some rsp), sent_get p a s e st)"
          using ar None DoResp True by (intro retryLoop_accept) simp_all
        then show ?thesis using ar DoResp True by auto
      next
        case False
        show ?thesis
        proof (rule retry)
          show "attempt_fails (get_result w p a url s e)"
            using DoResp False by (simp add: attempt_fails_def)
          show "\<And>st. retryLoop w r url s e p a resp st =
              retryLoop w r url s e p (a + 1) (Some rsp) (emit (EvSleep p a) (sent_get p a s e st))"
            using ar None DoResp False by (intro retryLoop_status_retry) simp_all
        qed
      qed
    qed
  qed
qed


lemma os_Create_cases:
  "(\<exists>err. create_err w nm = Some err \<and> os_Create w nm st = (Some err, st)) \<or>
   (create_err w nm = None \<and>
    os_Create w nm st = (None, emit (EvCreate nm) (st\<lparr>fs := (fs st)(nm \<mapsto> [])\<rparr>)))"
  by (cases "create_err w nm") (simp_all add: os_Create_def)

lemma io_Copy_fresh:
  assumes "fs st nm = Some []"
  shows "\<exists>res st'. io_Copy w nm src srcErr st = (res, st') \<and>
           tempFiles st' = tempFiles st \<and> errChan st' = errChan st \<and> trace st' = trace st \<and>
           (\<forall>x. x \<noteq> nm \<longrightarrow> fs st' x = fs st x) \<and>
           (res = None \<longrightarrow> fs st' = (fs st)(nm \<mapsto> src))"
  using assms
  by (cases "write_limit w nm") (auto simp: io_Copy_def file_bytes_def Let_def)

lemma downloadPart_outcome:
  assumes "1 \<le> r"
  shows "\<exists>st'. downloadPart w r url s e p st = Some st' \<and>
           (\<forall>x. x \<noteq> tempName p \<longrightarrow> fs st' x = fs st x) \<and>
           ((tempFiles st' = tempFiles st \<and>
             (\<exists>err. errChan st' = errChan st @ [err] \<and> error_part err = Some p)) \<or>
            (tempFiles st' = tempFiles st @ [tempName p] \<and> errChan st' = errChan st \<and>
             (\<exists>k rsp. 1 \<le> k \<and> k \<le> r \<and> get_result w p k url s e = DoResp rsp \<and>
                (StatusCode rsp = 206 \<or> StatusCode rsp = 200) \<and>
                (\<forall>j. 1 \<le> j \<and> j < k \<longrightarrow> attempt_fails (get_result w p j url s e)) \<and>
                fs st' = (fs st)(tempName p \<mapsto> Body rsp))))"
proof -
  from retryLoop_outcome [OF assms, of w url s e p None st]
  obtain ex st1 where run: "retryLoop w r url s e p 1 None st = (ex, st1)"
    and frame: "fs st1 = fs st" "tempFiles st1 = tempFiles st"
    and out: "(ex = Returned \<and> (\<exists>err. errChan st1 = errChan st @ [err] \<and> error_part err = Some p)) \<or>
            (\<exists>k rsp. ex = Exited (Some rsp) \<and> errChan st1 = errChan st \<and> 1 \<le> k \<and> k \<le> r \<and>
               get_result w p k url s e = DoResp rsp \<and>
               (StatusCode rsp = 206 \<or> StatusCode rsp = 200) \<and>
               (\<forall>j. 1 \<le> j \<and> j < k \<longrightarrow> attempt_fails (get_result w p j url s e)))"
    by blast
  from out show ?thesis
  proof
    assume "ex = Returned \<and> (\<exists>err. errChan st1 = errChan st @ [err] \<and> error_part err = Some p)"
    then show ?thesis using run frame by (simp add: downloadPart_def)
  next
    assume "\<exists>k rsp. ex = Exited (Some rsp) \<and> errChan st1 = errChan st \<and> 1 \<le> k \<and> k \<le> r \<and>
               get_result w p k url s e = DoResp rsp \<and>
               (StatusCode rsp = 206 \<or> StatusCode rsp = 200) \<and>
               (\<forall>j. 1 \<le> j \<and> j < k \<longrightarrow> attempt_fails (get_result w p j url s e))"
    then obtain k rsp where k: "ex = Exited (Some rsp)" "errChan st1 = errChan st"
      "1 \<le> k" "k \<le> r" "get_result w p k url s e = DoResp rsp"
      "StatusCode rsp = 206 \<or> StatusCode rsp = 200"
      "\<forall>j. 1 \<le> j \<and> j < k \<longrightarrow> attempt_fails (get_result w p j url s e)"
      by blast
    from os_Create_cases [of w "tempName p" st1] show ?thesis
    proof
      assume "\<exists>err. create_err w (tempName p) = Some err \<and>
                os_Create w (tempName p) st1 = (Some err, st1)"
      then show ?thesis using run k(1,2) frame by (auto simp: downloadPart_def)
    next
      let ?st2 = "emit (EvCreate (tempName p)) (st1\<lparr>fs := (fs st1)(tempName p \<mapsto> [])\<rparr>)"
      assume "create_err w (tempName p) = None \<and> os_Create w (tempName p) st1 = (None, ?st2)"
      then have cr: "os_Create w (tempName p) st1 = (None, ?st2)" by simp
      have "fs ?st2 (tempName p) = Some []" by simp
      from io_Copy_fresh [OF this, of w "Body rsp" "BodyErr rsp"]
      obtain res st3 where cp: "io_Copy w (tempName p) (Body rsp) (BodyErr rsp) ?st2 = (res, st3)"
        and f3: "tempFiles st3 = tempFiles ?st2" "errChan st3 = errChan ?st2"
          "\<forall>x. x \<noteq> tempName p \<longrightarrow> fs st3 x = fs ?st2 x"
          "res = None \<longrightarrow> fs st3 = (fs ?st2)(tempName p \<mapsto> Body rsp)"
        by blast
      show ?thesis
      proof (cases res)
        case (Some err)
        then have "downloadPart w r url s e p st = Some (send_err (PartWriteTempFailed p err) st3)"
          using run k(1) cr cp by (simp add: downloadPart_def)
        then show ?thesis using f3 frame k(2) by simp
      next
        case None
        then have dp: "downloadPart w r url s e p st = Some (send_temp (tempName p) st3)"
          using run k(1) cr cp by (simp add: downloadPart_def)
        have "fs st3 = (fs st)(tempName p \<mapsto> Body rsp)"
          using None f3(4) frame by simp
        then show ?thesis using dp f3(1,2) frame k by auto
      qed
    qed
  qed
qed

lemma retryLoop_all_fail:
  assumes nr: "new_request w ''GET'' url = None" and "a \<le> r"
    and "\<forall>k. a \<le> k \<and> k \<le> r \<longrightarrow> attempt_fails (get_result w p k url s e)"
  shows "retryLoop w r url s e p a resp st =
           (Returned,
            st\<lparr>errChan := errChan st @
                   [case get_result w p r url s e of
                      DoErr err \<Rightarrow> PartGetFailed p r err
                    | DoResp rsp \<Rightarrow> PartBadStatus p (StatusCode rsp)],
                trace := trace st @
                   concat (map (\<lambda>k. [EvGet p k (rangeHeader s e), EvSleep p k]) [a..<r]) @
                   [EvGet p r (rangeHeader s e)]\<rparr>)"
  using assms(2,3)
proof (induction "r - a" arbitrary: a resp st)
  case 0
  then have ar: "a = r" by simp
  then have fl: "attempt_fails (get_result w p r url s e)" using "0.prems" by simp
  show ?case
  proof (cases "get_result w p r url s e")
    case (DoErr err)
    then show ?thesis using ar nr
      by (simp add: retryLoop_error_last emit_def send_err_def)
  next
    case (DoResp rsp)
    then have "StatusCode rsp \<noteq> 206" "StatusCode rsp \<noteq> 200"
      using fl by (simp_all add: attempt_fails_def)
    then show ?thesis using ar nr DoResp
      by (simp add: retryLoop_status_last emit_def send_err_def)
  qed
next
  case (Suc d)
  then have ar: "a < r" and d: "d = r - (a + 1)" and le: "a + 1 \<le> r" by simp_all
  have fl: "attempt_fails (get_result w p a url s e)" using Suc.prems ar by simp
  have rest: "\<forall>k. a + 1 \<le> k \<and> k \<le> r \<longrightarrow> attempt_fails (get_result w p k url s e)"
    using Suc.prems by simp
  have upt: "[a..<r] = a # [a + 1..<r]" using ar by (simp add: upt_conv_Cons)
  note IH = Suc.hyps(1) [OF d le rest]
  show ?case
  proof (cases "get_result w p a url s e")
    case (DoErr err)
    have "retryLoop w r url s e p a resp st =
        retryLoop w r url s e p (a + 1) None (emit (EvSleep p a) (sent_get p a s e st))"
      using ar nr DoErr by (rule retryLoop_error_retry)
    also note IH
    finally show ?thesis by (simp add: upt emit_def)
  next
    case (DoResp rsp)
    then have "StatusCode rsp \<noteq> 206" "StatusCode rsp \<noteq> 200"
      using fl by (simp_all add: attempt_fails_def)
    then have "retryLoop w r url s e p a resp st =
        retryLoop w r url s e p (a + 1) (Some rsp) (emit (EvSleep p a) (sent_get p a s e st))"
      using ar nr DoResp by (intro retryLoop_status_retry) simp_all
    also note IH
    finally show ?thesis by (simp add: upt emit_def)
  qed
qed

lemma retryLoop_delta:
  assumes "a \<le> r"
  shows "\<exists>ex errs evs. \<forall>st. retryLoop w r url s e p a resp st =
           (ex, st\<lparr>errChan := errChan st @ errs, trace := trace st @ evs\<rparr>)"
  using assms
proof (induction "r - a" arbitrary: a resp)
  case 0
  then have ar: "a = r" by simp
  show ?case
  proof (cases "new_request w ''GET'' url")
    case (Some err)
    have "\<forall>st. retryLoop w r url s e p a resp st =
        (Returned, st\<lparr>errChan := errChan st @ [PartCreateRequestFailed p err], trace := trace st @ []\<rparr>)"
      using ar Some by (simp add: retryLoop_no_request send_err_def)
    then show ?thesis by blast
  next
    case None
    show ?thesis
    proof (cases "get_result w p a url s e")
      case (DoErr err)
      have "\<forall>st. retryLoop w r url s e p a resp st =
        (Returned, st\<lparr>errChan := errChan st @ [PartGetFailed p a err],
                       trace := trace st @ [EvGet p a (rangeHeader s e)]\<rparr>)"
        using ar None DoErr by (simp add: retryLoop_error_last send_err_def emit_def)
      then show ?thesis by blast
    next
      case (DoResp rsp)
      show ?thesis
      proof (cases "StatusCode rsp = 206 \<or> StatusCode rsp = 200")
        case True
        have "\<forall>st. retryLoop w r url s e p a resp st =
          (Exited (Some rsp), st\<lparr>errChan := errChan st @ [],
                       trace := trace st @ [EvGet p a (rangeHeader s e)]\<rparr>)"
        proof
          fix st
          have "retryLoop w r url s e p a resp st = (Exited (Some rsp), sent_get p a s e st)"
            using ar None DoResp True by (intro retryLoop_accept) simp_all
          then show "retryLoop w r url s e p a resp st =
            (Exited (Some rsp), st\<lparr>errChan := errChan st @ [],
                       trace := trace st @ [EvGet p a (rangeHeader s e)]\<rparr>)"
            by (simp add: emit_def)
        qed
        then show ?thesis by blast
      next
        case False
        have "\<forall>st. retryLoop w r url s e p a resp st =
          (Returned, st\<lparr>errChan := errChan st @ [PartBadStatus p (StatusCode rsp)],
                       trace := trace st @ [EvGet p a (rangeHeader s e)]\<rparr>)"
        proof
          fix st
          have "retryLoop w r url s e p a resp st =
            (Returned, send_err (PartBadStatus p (StatusCode rsp)) (sent_get p a s e st))"
            using ar None DoResp False by (intro retryLoop_status_last) simp_all
          then show "retryLoop w r url s e p a resp st =
            (Returned, st\<lparr>errChan := errChan st @ [PartBadStatus p (StatusCode rsp)],
                       trace := trace st @ [EvGet p a (rangeHeader s e)]\<rparr>)"
            by (simp add: emit_def send_err_def)
        qed
        then show ?thesis by blast
      qed
    qed
  qed
next
  case (Suc d)
  then have ar: "a < r" and d: "d = r - (a + 1)" and le: "a + 1 \<le> r" by simp_all
  have retry: ?case
    if step: "\<And>st. retryLoop w r url s e p a resp st =
                 retryLoop w r url s e p (a + 1) resp' (emit (EvSleep p a) (sent_get p a s e st))"
    for resp'
  proof -
    from Suc.hyps(1) [OF d le, of resp']
    obtain ex errs evs where run: "\<forall>st. retryLoop w r url s e p (a + 1) resp' st =
           (ex, st\<lparr>errChan := errChan st @ errs, trace := trace st @ evs\<rparr>)"
      by blast
    have "\<forall>st. retryLoop w r url s e p a resp st =
           (ex, st\<lparr>errChan := errChan st @ errs,
                    trace := trace st @ ([EvGet p a (rangeHeader s e), EvSleep p a] @ evs)\<rparr>)"
    proof
      fix st
      have "retryLoop w r url s e p a resp st =
          retryLoop w r url s e p (a + 1) resp' (emit (EvSleep p a) (sent_get p a s e st))"
        by (rule step)
      also have "\<dots> = (ex, (emit (EvSleep p a) (sent_get p a s e st))
            \<lparr>errChan := errChan (emit (EvSleep p a) (sent_get p a s e st)) @ errs,
             trace := trace (emit (EvSleep p a) (sent_get p a s e st)) @ evs\<rparr>)"
        using run by blast
      finally show "retryLoop w r url s e p a resp st =
           (ex, st\<lparr>errChan := errChan st @ errs,
                    trace := trace st @ ([EvGet p a (rangeHeader s e), EvSleep p a] @ evs)\<rparr>)"
        by (simp add: emit_def)
    qed
    then show ?thesis by blast
  qed
  show ?case
  proof (cases "new_request w ''GET'' url")
    case (Some err)
    have "\<forall>st. retryLoop w r url s e p a resp st =
        (Returned, st\<lparr>errChan := errChan st @ [PartCreateRequestFailed p err], trace := trace st @ []\<rparr>)"
      using ar Some by (simp add: retryLoop_no_request send_err_def)
    then show ?thesis by blast
  next
    case None
    show ?thesis
    proof (cases "get_result w p a url s e")
      case (DoErr err)
      show ?thesis
      proof (rule retry)
        show "\<And>st. retryLoop w r url s e p a resp st =
            retryLoop w r url s e p (a + 1) None (emit (EvSleep p a) (sent_get p a s e st))"
          using ar None DoErr by (rule retryLoop_error_retry)
      qed
    next
      case (DoResp rsp)
      show ?thesis
      proof (cases "StatusCode rsp = 206 \<or> StatusCode rsp = 200")
        case True
        have "\<forall>st. retryLoop w r url s e p a resp st =
          (Exited (Some rsp), st\<lparr>errChan := errChan st @ [],
                       trace := trace st @ [EvGet p a (rangeHeader s e)]\<rparr>)"
        proof
          fix st
          have "retryLoop w r url s e p a resp st = (Exited (Some rsp), sent_get p a s e st)"
            using ar None DoResp True by (intro retryLoop_accept) simp_all
          then show "retryLoop w r url s e p a resp st =
            (Exited (Some rsp), st\<lparr>errChan := errChan st @ [],
                       trace := trace st @ [EvGet p a (rangeHeader s e)]\<rparr>)"
            by (simp add: emit_def)
        qed
        then show ?thesis by blast
      next
        case False
        show ?thesis
        proof (rule retry)
          show "\<And>st. retryLoop w r url s e p a resp st =
              retryLoop w r url s e p (a + 1) (Some rsp) (emit (EvSleep p a) (sent_get p a s e st))"
            using ar None DoResp False by (intro retryLoop_status_retry) simp_all
        qed
      qed
    qed
  qed
qed

lemma retryLoop_accept_at:
  assumes nr: "new_request w ''GET'' url = None" and "a \<le> k" and kr: "k \<le> r"
    and "\<forall>j. a \<le> j \<and> j < k \<longrightarrow> attempt_fails (get_result w p j url s e)"
    and ok: "get_result w p k url s e = DoResp rsp" "StatusCode rsp = 206 \<or> StatusCode rsp = 200"
  shows "retryLoop w r url s e p a resp st =
           (Exited (Some rsp),
            st\<lparr>trace := trace st @
                   concat (map (\<lambda>j. [EvGet p j (rangeHeader s e), EvSleep p j]) [a..<k]) @
                   [EvGet p k (rangeHeader s e)]\<rparr>)"
  using assms(2,4)
proof (induction "k - a" arbitrary: a resp st)
  case 0
  then have ak: "a = k" by simp
  have "retryLoop w r url s e p k resp st = (Exited (Some rsp), sent_get p k s e st)"
    using kr nr ok by (rule retryLoop_accept)
  then show ?case using ak by (simp add: emit_def)
next
  case (Suc d)
  then have ak: "a < k" and d: "d = k - (a + 1)" and le: "a + 1 \<le> k" by simp_all
  have ar: "a < r" using ak kr by simp
  have fl: "attempt_fails (get_result w p a url s e)" using Suc.prems ak by simp
  have rest: "\<forall>j. a + 1 \<le> j \<and> j < k \<longrightarrow> attempt_fails (get_result w p j url s e)"
    using Suc.prems by simp
  have upt: "[a..<k] = a # [a + 1..<k]" using ak by (simp add: upt_conv_Cons)
  note IH = Suc.hyps(1) [OF d le rest]
  show ?case
  proof (cases "get_result w p a url s e")
    case (DoErr err)
    have "retryLoop w r url s e p a resp st =
        retryLoop w r url s e p (a + 1) None (emit (EvSleep p a) (sent_get p a s e st))"
      using ar nr DoErr by (rule retryLoop_error_retry)
    also note IH
    finally show ?thesis by (simp add: upt emit_def)
  next
    case (DoResp rsp')
    then have "StatusCode rsp' \<noteq> 206" "StatusCode rsp' \<noteq> 200"
      using fl by (simp_all add: attempt_fails_def)
    then have "retryLoop w r url s e p a resp st =
        retryLoop w r url s e p (a + 1) (Some rsp') (emit (EvSleep p a) (sent_get p a s e st))"
      using ar nr DoResp by (intro retryLoop_status_retry) simp_all
    also note IH
    finally show ?thesis by (simp add: upt emit_def)
  qed
qed

lemmas part_eval = downloadPart_def retryLoop.simps Do_get_def get_result_def plain_world_def
  respond_def emit_def send_err_def send_temp_def init_state_def rangeHeader_def itoa_def
  digits10.simps digit_char_def tempName_def os_Create_def io_Copy_def file_bytes_def
  file_server_def range_get_def slice_def Let_def MAX_RETRIES_def attempt_fails_def

section \<open>Claims about the part fetcher\<close>

text \<open>
  Claim C6 (retry exhaustion). When the request can be built and every attempt
  \<open>1, \<dots>, r\<close> of a part fails, with a transport error or with a status that is
  neither 206 nor 200, \<^verbatim>\<open>downloadPart\<close> sends exactly \<open>r\<close> requests, sleeps
  \<open>k\<close> seconds between request \<open>k\<close> and request \<open>k + 1\<close>, then sends one error on
  \<^verbatim>\<open>errChan\<close> that carries the part number and the last attempt's error or
  status, and does nothing more: the files and \<^verbatim>\<open>tempFiles\<close> are as before.
\<close>

theorem retry_exhaustion:
  assumes "1 \<le> r"
    and "new_request w ''GET'' url = None"
    and "\<forall>k. 1 \<le> k \<and> k \<le> r \<longrightarrow> attempt_fails (get_result w partNum k url start end)"
  shows "downloadPart w r url start end partNum st =
           Some (st\<lparr>errChan := errChan st @
                   [case get_result w partNum r url start end of
                      DoErr err \<Rightarrow> PartGetFailed partNum r err
                    | DoResp rsp \<Rightarrow> PartBadStatus partNum (StatusCode rsp)],
                trace := trace st @
                   concat (map (\<lambda>k. [EvGet partNum k (rangeHeader start end), EvSleep partNum k])
                             [1..<r]) @
                   [EvGet partNum r (rangeHeader start end)]\<rparr>)"
  using retryLoop_all_fail [OF assms(2) assms(1) assms(3), of None st]
  by (simp add: downloadPart_def)

theorem retry_exhaustion_witness:
  "1 \<le> MAX_RETRIES \<and>
   new_request (plain_world Map.empty refusing_get) ''GET'' ''http://h/f'' = None \<and>
   attempt_fails (get_result (plain_world Map.empty refusing_get) 1 1 ''http://h/f'' 0 24) \<and>
   attempt_fails (get_result (plain_world Map.empty refusing_get) 1 2 ''http://h/f'' 0 24) \<and>
   attempt_fails (get_result (plain_world Map.empty refusing_get) 1 3 ''http://h/f'' 0 24) \<and>
   downloadPart (plain_world Map.empty refusing_get) MAX_RETRIES ''http://h/f'' 0 24 1 init_state =
     Some \<lparr>fs = Map.empty, tempFiles = [],
           errChan = [PartGetFailed 1 3 ''connection refused''],
           trace = [EvGet 1 1 ''bytes=0-24'', EvSleep 1 1,
                    EvGet 1 2 ''bytes=0-24'', EvSleep 1 2,
                    EvGet 1 3 ''bytes=0-24'']\<rparr>"
proof -
  let ?w = "plain_world Map.empty refusing_get"
  have h1: "1 \<le> MAX_RETRIES" by (simp add: MAX_RETRIES_def)
  have h2: "new_request ?w ''GET'' ''http://h/f'' = None" by (simp add: plain_world_def)
  have fl: "attempt_fails (get_result ?w 1 k ''http://h/f'' 0 24)" for k
    by (simp add: attempt_fails_def get_result_def plain_world_def refusing_get_def respond_def)
  then have h3: "\<forall>k. 1 \<le> k \<and> k \<le> MAX_RETRIES \<longrightarrow>
      attempt_fails (get_result ?w 1 k ''http://h/f'' 0 24)" by simp
  have up: "[Suc 0..<3] = [Suc 0, 2]" by (simp add: upt_rec)
  have "downloadPart ?w MAX_RETRIES ''http://h/f'' 0 24 1 init_state =
     Some \<lparr>fs = Map.empty, tempFiles = [],
           errChan = [PartGetFailed 1 3 ''connection refused''],
           trace = [EvGet 1 1 ''bytes=0-24'', EvSleep 1 1,
                    EvGet 1 2 ''bytes=0-24'', EvSleep 1 2,
                    EvGet 1 3 ''bytes=0-24'']\<rparr>"
    unfolding retry_exhaustion [OF h1 h2 h3, of init_state]
    by (simp add: MAX_RETRIES_def get_result_def plain_world_def refusing_get_def init_state_def
        rangeHeader_def itoa_def digits10.simps digit_char_def up)
  then show ?thesis using h1 h2 fl by simp
qed


text \<open>
  Claim C10 (one message, non-nil response). With a retry budget \<open>r \<ge> 1\<close> the
  retry loop is never left with \<^verbatim>\<open>resp\<close> nil, so the deferred
  \<^verbatim>\<open>resp.Body.Close()\<close> does not panic, and \<^verbatim>\<open>downloadPart\<close> returns having sent
  exactly one message: its temp-file name on \<^verbatim>\<open>tempFiles\<close> or one error on
  \<^verbatim>\<open>errChan\<close>. With \<open>r = 0\<close> the loop body never runs and the call panics.
\<close>

theorem downloadPart_one_message:
  "(r = 0 \<longrightarrow> downloadPart w r url start end partNum st = None) \<and>
   (1 \<le> r \<longrightarrow>
      fst (retryLoop w r url start end partNum 1 None st) \<noteq> Exited None \<and>
      (\<exists>st'. downloadPart w r url start end partNum st = Some st' \<and>
         ((tempFiles st' = tempFiles st @ [tempName partNum] \<and> errChan st' = errChan st) \<or>
          (tempFiles st' = tempFiles st \<and> (\<exists>err. errChan st' = errChan st @ [err])))))"
proof (intro conjI impI)
  assume "r = 0"
  then show "downloadPart w r url start end partNum st = None"
    by (simp add: downloadPart_def retryLoop_done)
next
  assume r: "1 \<le> r"
  from retryLoop_outcome [OF r, of w url start "end" partNum None st]
  show "fst (retryLoop w r url start end partNum 1 None st) \<noteq> Exited None"
    by auto
next
  assume r: "1 \<le> r"
  from downloadPart_outcome [OF r, of w url start "end" partNum st]
  show "\<exists>st'. downloadPart w r url start end partNum st = Some st' \<and>
         ((tempFiles st' = tempFiles st @ [tempName partNum] \<and> errChan st' = errChan st) \<or>
          (tempFiles st' = tempFiles st \<and> (\<exists>err. errChan st' = errChan st @ [err])))"
    by blast
qed

theorem downloadPart_one_message_witness:
  "1 \<le> MAX_RETRIES \<and>
   fst (retryLoop (file_server ''hello world!'') MAX_RETRIES ''http://h/f'' 0 2 1 1 None init_state)
     \<noteq> Exited None \<and>
   (\<exists>st'. downloadPart (file_server ''hello world!'') MAX_RETRIES ''http://h/f'' 0 2 1 init_state
            = Some st' \<and>
          length (tempFiles st') + length (errChan st') = 1)"
proof -
  have h: "1 \<le> MAX_RETRIES" by (simp add: MAX_RETRIES_def)
  from downloadPart_one_message
    [of MAX_RETRIES "file_server ''hello world!''" "''http://h/f''" 0 2 1 init_state] h
  show ?thesis by (auto simp: init_state_def)
qed

text \<open>
  Claim C5 (part exactness), as amended. \<^verbatim>\<open>downloadPart\<close> either fails (one error
  on \<^verbatim>\<open>errChan\<close>, nothing on \<^verbatim>\<open>tempFiles\<close>) or announces its temp file, which
  then holds exactly the body of the first response whose status is 206 or 200, all
  earlier attempts having failed. The length of that body is not compared with
  \<open>end - start + 1\<close>.
\<close>

theorem downloadPart_artifact:
  assumes "1 \<le> r"
  shows "\<exists>st'. downloadPart w r url start end partNum st = Some st' \<and>
           ((tempFiles st' = tempFiles st \<and> (\<exists>err. errChan st' = errChan st @ [err])) \<or>
            (tempFiles st' = tempFiles st @ [tempName partNum] \<and> errChan st' = errChan st \<and>
             (\<exists>k rsp. 1 \<le> k \<and> k \<le> r \<and>
                get_result w partNum k url start end = DoResp rsp \<and>
                (StatusCode rsp = 206 \<or> StatusCode rsp = 200) \<and>
                (\<forall>j. 1 \<le> j \<and> j < k \<longrightarrow>
                   attempt_fails (get_result w partNum j url start end)) \<and>
                fs st' (tempName partNum) = Some (Body rsp))))"
proof -
  from downloadPart_outcome [OF assms, of w url start "end" partNum st]
  obtain st' where dp: "downloadPart w r url start end partNum st = Some st'"
    and out: "(tempFiles st' = tempFiles st \<and>
             (\<exists>err. errChan st' = errChan st @ [err] \<and> error_part err = Some partNum)) \<or>
            (tempFiles st' = tempFiles st @ [tempName partNum] \<and> errChan st' = errChan st \<and>
             (\<exists>k rsp. 1 \<le> k \<and> k \<le> r \<and> get_result w partNum k url start end = DoResp rsp \<and>
                (StatusCode rsp = 206 \<or> StatusCode rsp = 200) \<and>
                (\<forall>j. 1 \<le> j \<and> j < k \<longrightarrow> attempt_fails (get_result w partNum j url start end)) \<and>
                fs st' = (fs st)(tempName partNum \<mapsto> Body rsp)))"
    by blast
  from out show ?thesis
  proof
    assume "tempFiles st' = tempFiles st \<and>
             (\<exists>err. errChan st' = errChan st @ [err] \<and> error_part err = Some partNum)"
    then show ?thesis using dp by blast
  next
    assume "tempFiles st' = tempFiles st @ [tempName partNum] \<and> errChan st' = errChan st \<and>
             (\<exists>k rsp. 1 \<le> k \<and> k \<le> r \<and> get_result w partNum k url start end = DoResp rsp \<and>
                (StatusCode rsp = 206 \<or> StatusCode rsp = 200) \<and>
                (\<forall>j. 1 \<le> j \<and> j < k \<longrightarrow> attempt_fails (get_result w partNum j url start end)) \<and>
                fs st' = (fs st)(tempName partNum \<mapsto> Body rsp))"
    then obtain k rsp where a: "tempFiles st' = tempFiles st @ [tempName partNum]"
      "errChan st' = errChan st" "1 \<le> k" "k \<le> r"
      "get_result w partNum k url start end = DoResp rsp"
      "StatusCode rsp = 206 \<or> StatusCode rsp = 200"
      "\<forall>j. 1 \<le> j \<and> j < k \<longrightarrow> attempt_fails (get_result w partNum j url start end)"
      "fs st' = (fs st)(tempName partNum \<mapsto> Body rsp)"
      by blast
    have "fs st' (tempName partNum) = Some (Body rsp)" using a(8) by simp
    then show ?thesis using dp a(1-7) by blast
  qed
qed

theorem downloadPart_artifact_witness:
  "1 \<le> MAX_RETRIES \<and>
   (\<exists>st'. downloadPart (file_server ''hello world!'') MAX_RETRIES ''http://h/f'' 0 2 1 init_state
            = Some st' \<and>
          tempFiles st' = [''part-1.tmp''] \<and> errChan st' = [] \<and>
          fs st' ''part-1.tmp'' = Some ''hel'')"
proof -
  have h: "1 \<le> MAX_RETRIES" by (simp add: MAX_RETRIES_def)
  have ev: "downloadPart (file_server ''hello world!'') MAX_RETRIES ''http://h/f'' 0 2 1 init_state
      = Some \<lparr>fs = [''part-1.tmp'' \<mapsto> ''hel''], tempFiles = [''part-1.tmp''], errChan = [],
              trace = [EvGet 1 1 ''bytes=0-2'', EvCreate ''part-1.tmp'']\<rparr>"
    by (simp add: part_eval)
  from downloadPart_artifact
    [OF h, of "file_server ''hello world!''" "''http://h/f''" 0 2 1 init_state] h ev
  show ?thesis by auto
qed

text \<open>
  Claim C5 as stated fails: a server that answers the request for bytes 0 to 4 with
  status 200 and its whole ten-byte content is not rejected, and the part file holds
  ten bytes, not five.
\<close>

theorem artifact_length_counterexample:
  "downloadPart (plain_world Map.empty (whole_get ''0123456789'')) MAX_RETRIES ''http://h/f'' 0 4 1
       init_state =
     Some \<lparr>fs = [''part-1.tmp'' \<mapsto> ''0123456789''], tempFiles = [''part-1.tmp''], errChan = [],
           trace = [EvGet 1 1 ''bytes=0-4'', EvCreate ''part-1.tmp'']\<rparr> \<and>
   length ''0123456789'' \<noteq> nat (4 - 0 + 1)"
  by (simp add: part_eval whole_get_def)

text \<open>
  Claim C9 (cancellation), as amended, in two cases. In both the attempts before
  \<open>k\<close> have failed, so the fetch is still running at attempt \<open>k\<close>.
  \<^item> The cancellation takes effect inside the retry loop: the context is done from
    attempt \<open>k\<close> on. Then the fetch ends in failure, no part file is written, nothing is
    sent on \<^verbatim>\<open>tempFiles\<close>, and the one error sent on \<^verbatim>\<open>errChan\<close> is the error of
    an exhausted retry budget, \<^verbatim>\<open>failed to perform GET request after r attempts\<close>,
    with the context's error as its last error.
  \<^item> The cancellation takes effect during the body copy: the response of attempt
    \<open>k\<close> is accepted and the read of its body ends with the context's error. Then
    (the part file being creatable and writable) there is no further request and no
    sleep after attempt \<open>k\<close>, the part file is left holding the bytes read so far,
    nothing is sent on \<^verbatim>\<open>tempFiles\<close>, and the one error sent on \<^verbatim>\<open>errChan\<close> is
    \<^verbatim>\<open>failed to write to temp file\<close> with the context's error.
  In neither case is the error of a kind of its own.
\<close>

theorem cancelled_fetch_fails:
  assumes "1 \<le> k" and "k \<le> r" and "new_request w ''GET'' url = None"
    and "\<forall>j. 1 \<le> j \<and> j < k \<longrightarrow> attempt_fails (get_result w partNum j url start end)"
  shows "((\<forall>a. k \<le> a \<longrightarrow> ctx_done w partNum a) \<longrightarrow>
            (\<exists>st'. downloadPart w r url start end partNum st = Some st' \<and>
               fs st' = fs st \<and> tempFiles st' = tempFiles st \<and>
               errChan st' = errChan st @ [PartGetFailed partNum r (ctx_err w)])) \<and>
         (\<forall>rsp. get_result w partNum k url start end = DoResp rsp \<and>
               (StatusCode rsp = 206 \<or> StatusCode rsp = 200) \<and>
               BodyErr rsp = Some (ctx_err w) \<and>
               create_err w (tempName partNum) = None \<and>
               write_limit w (tempName partNum) = None \<longrightarrow>
            downloadPart w r url start end partNum st =
              Some (st\<lparr>fs := (fs st)(tempName partNum \<mapsto> Body rsp),
                       errChan := errChan st @ [PartWriteTempFailed partNum (ctx_err w)],
                       trace := trace st @
                         concat (map (\<lambda>j. [EvGet partNum j (rangeHeader start end),
                                             EvSleep partNum j]) [1..<k]) @
                         [EvGet partNum k (rangeHeader start end),
                          EvCreate (tempName partNum)]\<rparr>))"
proof (intro conjI impI allI)
  assume cancelled: "\<forall>a. k \<le> a \<longrightarrow> ctx_done w partNum a"
  have late: "get_result w partNum a url start end = DoErr (ctx_err w)" if "k \<le> a" for a
    using that cancelled by (simp add: get_result_def)
  have "\<forall>a. 1 \<le> a \<and> a \<le> r \<longrightarrow> attempt_fails (get_result w partNum a url start end)"
  proof (intro allI impI)
    fix a assume "1 \<le> a \<and> a \<le> r"
    then show "attempt_fails (get_result w partNum a url start end)"
      using late [of a] assms(4) by (cases "k \<le> a") (auto simp: attempt_fails_def)
  qed
  moreover have "1 \<le> r" using assms(1,2) by simp
  ultimately have "retryLoop w r url start end partNum 1 None st =
           (Returned,
            st\<lparr>errChan := errChan st @
                   [case get_result w partNum r url start end of
                      DoErr err \<Rightarrow> PartGetFailed partNum r err
                    | DoResp rsp \<Rightarrow> PartBadStatus partNum (StatusCode rsp)],
                trace := trace st @
                   concat (map (\<lambda>k. [EvGet partNum k (rangeHeader start end), EvSleep partNum k])
                      [1..<r]) @
                   [EvGet partNum r (rangeHeader start end)]\<rparr>)"
    using retryLoop_all_fail [OF assms(3), of 1 r partNum start "end" None st] by blast
  then show "\<exists>st'. downloadPart w r url start end partNum st = Some st' \<and>
               fs st' = fs st \<and> tempFiles st' = tempFiles st \<and>
               errChan st' = errChan st @ [PartGetFailed partNum r (ctx_err w)]"
    using late [OF assms(2)] by (simp add: downloadPart_def)
next
  fix rsp
  assume h: "get_result w partNum k url start end = DoResp rsp \<and>
               (StatusCode rsp = 206 \<or> StatusCode rsp = 200) \<and>
               BodyErr rsp = Some (ctx_err w) \<and>
               create_err w (tempName partNum) = None \<and>
               write_limit w (tempName partNum) = None"
  then have ok: "get_result w partNum k url start end = DoResp rsp"
    "StatusCode rsp = 206 \<or> StatusCode rsp = 200" by simp_all
  have "retryLoop w r url start end partNum 1 None st =
           (Exited (Some rsp),
            st\<lparr>trace := trace st @
                   concat (map (\<lambda>j. [EvGet partNum j (rangeHeader start end), EvSleep partNum j])
                      [1..<k]) @
                   [EvGet partNum k (rangeHeader start end)]\<rparr>)"
    using retryLoop_accept_at [OF assms(3) assms(1) assms(2) assms(4) ok] .
  then show "downloadPart w r url start end partNum st =
              Some (st\<lparr>fs := (fs st)(tempName partNum \<mapsto> Body rsp),
                       errChan := errChan st @ [PartWriteTempFailed partNum (ctx_err w)],
                       trace := trace st @
                         concat (map (\<lambda>j. [EvGet partNum j (rangeHeader start end),
                                             EvSleep partNum j]) [1..<k]) @
                         [EvGet partNum k (rangeHeader start end),
                          EvCreate (tempName partNum)]\<rparr>)"
    using h
    by (simp add: downloadPart_def os_Create_def io_Copy_def file_bytes_def emit_def send_err_def
        Let_def)
qed

theorem cancelled_fetch_fails_witness:
  "(1::nat) \<le> 1 \<and> 1 \<le> MAX_RETRIES \<and>
   new_request (cancelled_world ''hello world!'') ''GET'' ''http://h/f'' = None \<and>
   ctx_done (cancelled_world ''hello world!'') 1 1 \<and>
   ctx_done (cancelled_world ''hello world!'') 1 3 \<and>
   (\<exists>st'. downloadPart (cancelled_world ''hello world!'') MAX_RETRIES ''http://h/f'' 0 2 1 init_state
            = Some st' \<and>
          fs st' = Map.empty \<and> tempFiles st' = [] \<and>
          errChan st' = [PartGetFailed 1 3 ''context canceled'']) \<and>
   new_request (interrupted_world ''hello world!'') ''GET'' ''http://h/f'' = None \<and>
   get_result (interrupted_world ''hello world!'') 1 1 ''http://h/f'' 0 2 =
     DoResp \<lparr>StatusCode = 206, Header = Map.empty, Body = ''he'',
             BodyErr = Some ''context canceled''\<rparr> \<and>
   ctx_err (interrupted_world ''hello world!'') = ''context canceled'' \<and>
   create_err (interrupted_world ''hello world!'') ''part-1.tmp'' = None \<and>
   write_limit (interrupted_world ''hello world!'') ''part-1.tmp'' = None \<and>
   downloadPart (interrupted_world ''hello world!'') MAX_RETRIES ''http://h/f'' 0 2 1 init_state =
     Some \<lparr>fs = [''part-1.tmp'' \<mapsto> ''he''], tempFiles = [],
           errChan = [PartWriteTempFailed 1 ''context canceled''],
           trace = [EvGet 1 1 ''bytes=0-2'', EvCreate ''part-1.tmp'']\<rparr>"
proof -
  let ?w = "cancelled_world ''hello world!''"
  let ?v = "interrupted_world ''hello world!''"
  let ?rsp = "\<lparr>StatusCode = 206, Header = Map.empty, Body = ''he'',
             BodyErr = Some ''context canceled''\<rparr>"
  have h1: "(1::nat) \<le> 1" by simp
  have h2: "1 \<le> MAX_RETRIES" by (simp add: MAX_RETRIES_def)
  have h3: "new_request ?w ''GET'' ''http://h/f'' = None"
    by (simp add: cancelled_world_def file_server_def plain_world_def)
  have cdone: "ctx_done ?w 1 a" for a by (simp add: cancelled_world_def)
  then have h4: "\<forall>a. 1 \<le> a \<longrightarrow> ctx_done ?w 1 a" by simp
  have h5: "\<forall>j. 1 \<le> j \<and> j < 1 \<longrightarrow> attempt_fails (get_result ?w 1 j ''http://h/f'' 0 2)"
    by simp
  have ce: "ctx_err ?w = ''context canceled''"
    by (simp add: cancelled_world_def file_server_def plain_world_def)
  have loop: "\<exists>st'. downloadPart ?w MAX_RETRIES ''http://h/f'' 0 2 1 init_state = Some st' \<and>
          fs st' = Map.empty \<and> tempFiles st' = [] \<and>
          errChan st' = [PartGetFailed 1 3 ''context canceled'']"
    using cancelled_fetch_fails [OF h1 h2 h3 h5, of init_state] h4 ce
    by (simp add: init_state_def MAX_RETRIES_def)
  have g3: "new_request ?v ''GET'' ''http://h/f'' = None"
    by (simp add: interrupted_world_def plain_world_def)
  have g5: "\<forall>j. 1 \<le> j \<and> j < 1 \<longrightarrow> attempt_fails (get_result ?v 1 j ''http://h/f'' 0 2)"
    by simp
  have gr: "get_result ?v 1 1 ''http://h/f'' 0 2 = DoResp ?rsp"
    by (simp add: get_result_def interrupted_world_def plain_world_def interrupted_get_def
        slice_def)
  have ge: "ctx_err ?v = ''context canceled''" "create_err ?v ''part-1.tmp'' = None"
    "write_limit ?v ''part-1.tmp'' = None"
    by (simp_all add: interrupted_world_def plain_world_def)
  have tn: "tempName 1 = ''part-1.tmp''"
    by (simp add: tempName_def itoa_def digits10.simps digit_char_def)
  have copy: "downloadPart ?v MAX_RETRIES ''http://h/f'' 0 2 1 init_state =
     Some \<lparr>fs = [''part-1.tmp'' \<mapsto> ''he''], tempFiles = [],
           errChan = [PartWriteTempFailed 1 ''context canceled''],
           trace = [EvGet 1 1 ''bytes=0-2'', EvCreate ''part-1.tmp'']\<rparr>"
    using cancelled_fetch_fails [OF h1 h2 g3 g5, of init_state] gr ge tn
    by (simp add: init_state_def rangeHeader_def itoa_def digits10.simps digit_char_def)
  show ?thesis using h1 h2 h3 cdone loop g3 gr ge copy by simp
qed

text \<open>
  Claim C9 as stated fails: with the context cancelled before the first request, the
  fetcher still sleeps one and two seconds and sends the second and third request, and
  the error it reports is the one of a retrieval failure.
\<close>

theorem cancellation_counterexample:
  "ctx_done (cancelled_world ''hello world!'') 1 1 \<and>
   downloadPart (cancelled_world ''hello world!'') MAX_RETRIES ''http://h/f'' 0 2 1 init_state =
     Some \<lparr>fs = Map.empty, tempFiles = [],
           errChan = [PartGetFailed 1 3 ''context canceled''],
           trace = [EvGet 1 1 ''bytes=0-2'', EvSleep 1 1,
                    EvGet 1 2 ''bytes=0-2'', EvSleep 1 2,
                    EvGet 1 3 ''bytes=0-2'']\<rparr>"
  by (simp add: part_eval cancelled_world_def)

section \<open>Facts about the orchestrator\<close>

lemma io_Copy_fresh_result:
  assumes "fs st nm = Some []"
  shows "fst (io_Copy w nm src srcErr st) =
           (case write_limit w nm of
              None \<Rightarrow> srcErr
            | Some (cap, e) \<Rightarrow> if length src \<le> cap then srcErr else Some e)"
  using assms
  by (cases "write_limit w nm") (auto simp: io_Copy_def file_bytes_def Let_def)

lemma downloadPart_delta:
  assumes "1 \<le> r"
  shows "\<exists>errs. \<forall>st. \<exists>st'. downloadPart w r url s e p st = Some st' \<and>
           errChan st' = errChan st @ errs"
proof -
  from retryLoop_delta [OF assms, of w url s e p None]
  obtain ex errs evs where run1: "\<And>st. retryLoop w r url s e p 1 None st =
           (ex, st\<lparr>errChan := errChan st @ errs, trace := trace st @ evs\<rparr>)"
    by blast
  then have run: "\<And>st. retryLoop w r url s e p (Suc 0) None st =
           (ex, st\<lparr>errChan := errChan st @ errs, trace := trace st @ evs\<rparr>)"
    by simp
  show ?thesis
  proof (cases ex)
    case Returned
    then have "\<forall>st. \<exists>st'. downloadPart w r url s e p st = Some st' \<and>
           errChan st' = errChan st @ errs"
      by (simp add: downloadPart_def run)
    then show ?thesis by blast
  next
    case (Exited ro)
    have "ro \<noteq> None"
      using retryLoop_outcome [OF assms, of w url s e p None init_state] run1 [of init_state] Exited
      by auto
    then obtain rsp where ro: "ro = Some rsp" by blast
    show ?thesis
    proof (cases "create_err w (tempName p)")
      case (Some err)
      then have "\<forall>st. \<exists>st'. downloadPart w r url s e p st = Some st' \<and>
           errChan st' = errChan st @ (errs @ [PartCreateTempFailed p err])"
        by (simp add: downloadPart_def run Exited ro os_Create_def)
      then show ?thesis by blast
    next
      case None
      define res where "res =
           (case write_limit w (tempName p) of
              None \<Rightarrow> BodyErr rsp
            | Some (cap, e) \<Rightarrow> if length (Body rsp) \<le> cap then BodyErr rsp else Some e)"
      have "\<forall>st. \<exists>st'. downloadPart w r url s e p st = Some st' \<and>
           errChan st' = errChan st @ (errs @ (case res of None \<Rightarrow> [] | Some err \<Rightarrow> [PartWriteTempFailed p err]))"
      proof
        fix st
        let ?st1 = "st\<lparr>errChan := errChan st @ errs, trace := trace st @ evs\<rparr> :: state"
        let ?st2 = "emit (EvCreate (tempName p)) (?st1\<lparr>fs := (fs ?st1)(tempName p \<mapsto> [])\<rparr>)"
        have cr: "os_Create w (tempName p) ?st1 = (None, ?st2)"
          using None by (simp add: os_Create_def)
        have fresh: "fs ?st2 (tempName p) = Some []" by simp
        obtain res' st3 where cp: "io_Copy w (tempName p) (Body rsp) (BodyErr rsp) ?st2 = (res', st3)"
          by (cases "io_Copy w (tempName p) (Body rsp) (BodyErr rsp) ?st2")
        have "res' = res"
          using io_Copy_fresh_result [OF fresh, of w "Body rsp" "BodyErr rsp"] cp
          by (simp add: res_def)
        moreover have "errChan st3 = errChan ?st2"
          using io_Copy_fresh [OF fresh, of w "Body rsp" "BodyErr rsp"] cp by auto
        ultimately show "\<exists>st'. downloadPart w r url s e p st = Some st' \<and>
           errChan st' = errChan st @ (errs @ (case res of None \<Rightarrow> [] | Some err \<Rightarrow> [PartWriteTempFailed p err]))"
          using cr cp by (cases res) (simp_all add: downloadPart_def run Exited ro)
      qed
      then show ?thesis by blast
    qed
  qed
qed

lemma downloadPart_part_error:
  assumes "1 \<le> r"
  shows "\<exists>st'. downloadPart w r url s e p st = Some st' \<and>
           errChan st' = errChan st @
             (case part_error w r url (s, e) p of None \<Rightarrow> [] | Some err \<Rightarrow> [err]) \<and>
           (\<forall>x. x \<noteq> tempName p \<longrightarrow> fs st' x = fs st x)"
proof -
  from downloadPart_delta [OF assms, of w url s e p]
  obtain errs where d: "\<And>st. \<exists>st'. downloadPart w r url s e p st = Some st' \<and>
           errChan st' = errChan st @ errs"
    by blast
  from d [of init_state] obtain st0 where st0: "downloadPart w r url s e p init_state = Some st0"
    "errChan st0 = errs" by (auto simp: init_state_def)
  have short: "errs = [] \<or> (\<exists>err. errs = [err])"
    using downloadPart_outcome [OF assms, of w url s e p init_state] st0
    by (auto simp: init_state_def)
  have pe: "(case part_error w r url (s, e) p of None \<Rightarrow> [] | Some err \<Rightarrow> [err]) = errs"
    using short st0 by (auto simp: part_error_def)
  from d [of st] obtain st' where st': "downloadPart w r url s e p st = Some st'"
    "errChan st' = errChan st @ errs" by blast
  moreover have "\<forall>x. x \<noteq> tempName p \<longrightarrow> fs st' x = fs st x"
    using downloadPart_outcome [OF assms, of w url s e p st] st'(1) by auto
  ultimately show ?thesis using pe by simp
qed

lemma runParts_errors:
  assumes "1 \<le> r"
  shows "\<exists>st'. runParts w r url ranges sched st = Some st' \<and>
           errChan st' = errChan st @
             List.map_filter (\<lambda>i. part_error w r url (ranges ! i) (i + 1)) sched \<and>
           (\<forall>x. list_all (\<lambda>i. x \<noteq> tempName (i + 1)) sched \<longrightarrow> fs st' x = fs st x)"
proof (induction sched arbitrary: st)
  case Nil
  show ?case by (simp add: List.map_filter_simps)
next
  case (Cons i sched)
  from downloadPart_part_error [OF assms, of w url "fst (ranges ! i)" "snd (ranges ! i)" "i + 1" st]
  obtain st1 where st1: "downloadPart w r url (fst (ranges ! i)) (snd (ranges ! i)) (i + 1) st = Some st1"
    "errChan st1 = errChan st @
       (case part_error w r url (ranges ! i) (i + 1) of None \<Rightarrow> [] | Some err \<Rightarrow> [err])"
    "\<forall>x. x \<noteq> tempName (i + 1) \<longrightarrow> fs st1 x = fs st x"
    by auto
  from Cons.IH [of st1] obtain st' where st': "runParts w r url ranges sched st1 = Some st'"
    "errChan st' = errChan st1 @
             List.map_filter (\<lambda>i. part_error w r url (ranges ! i) (i + 1)) sched"
    "\<forall>x. list_all (\<lambda>i. x \<noteq> tempName (i + 1)) sched \<longrightarrow> fs st' x = fs st1 x"
    by blast
  have "runParts w r url ranges (i # sched) st = Some st'" using st1(1) st'(1) by simp
  moreover have "errChan st' = errChan st @
             List.map_filter (\<lambda>i. part_error w r url (ranges ! i) (i + 1)) (i # sched)"
    using st1(2) st'(2)
    by (cases "part_error w r url (ranges ! i) (i + 1)") (simp_all add: List.map_filter_simps)
  moreover have "\<forall>x. list_all (\<lambda>i. x \<noteq> tempName (i + 1)) (i # sched) \<longrightarrow> fs st' x = fs st x"
    using st1(3) st'(3) by simp
  ultimately show ?case by blast
qed

lemma map_filter_find:
  "find (\<lambda>i. f i \<noteq> None) xs = Some i \<Longrightarrow>
   \<exists>e es. List.map_filter f xs = e # es \<and> f i = Some e"
proof (induction xs)
  case Nil
  then show ?case by simp
next
  case (Cons x xs)
  then show ?case by (cases "f x") (auto simp: List.map_filter_simps)
qed

lemma digits10_chars: "set (digits10 k) \<subseteq> set ''0123456789''"
proof (induction k rule: digits10.induct)
  case (1 k)
  have d: "digit_char j \<in> set ''0123456789''" if "j < 10" for j
    unfolding digit_char_def using that by (intro nth_mem) simp
  show ?case
  proof (cases "k < 10")
    case True
    then show ?thesis using d [of k] by (subst digits10.simps) simp
  next
    case False
    then show ?thesis using 1 d [of "k mod 10"] by (subst digits10.simps) simp
  qed
qed

lemma tempName_no_slash: "CHR ''/'' \<notin> set (tempName p)"
  using digits10_chars [of p] by (auto simp: tempName_def itoa_def)

lemma outputPath_not_temp: "outputPath w h url filepath \<noteq> tempName p"
proof
  assume "outputPath w h url filepath = tempName p"
  moreover have "CHR ''/'' \<in> set (outputPath w h url filepath)"
    by (simp add: outputPath_def)
  ultimately show False using tempName_no_slash [of p] by simp
qed

lemma getFileHeaders_fs: "getFileHeaders w url st = (res, st1) \<Longrightarrow> fs st1 = fs st"
  by (auto simp: getFileHeaders_def Do_head_def Let_def
      split: option.splits do_result.splits if_splits prod.splits)

lemma getFileSize_fs: "getFileSize w url st = (res, st1) \<Longrightarrow> fs st1 = fs st"
  by (auto simp: getFileSize_def Do_head_def Let_def
      split: option.splits do_result.splits if_splits prod.splits)

lemma retryLoop_no_create:
  assumes "a \<le> r"
  shows "\<exists>evs. trace (snd (retryLoop w r url s e p a resp st)) = trace st @ evs \<and>
           (\<forall>nm. EvCreate nm \<notin> set evs)"
  using assms
proof (induction "r - a" arbitrary: a resp st)
  case 0
  then have ar: "a = r" by simp
  show ?case
  proof (cases "new_request w ''GET'' url")
    case (Some err)
    then show ?thesis using ar by (simp add: retryLoop_no_request)
  next
    case None
    show ?thesis
    proof (cases "get_result w p a url s e")
      case (DoErr err)
      then show ?thesis using ar None by (simp add: retryLoop_error_last)
    next
      case (DoResp rsp)
      show ?thesis
      proof (cases "StatusCode rsp = 206 \<or> StatusCode rsp = 200")
        case True
        have "retryLoop w r url s e p a resp st = (Exited (Some rsp), sent_get p a s e st)"
          using ar None DoResp True by (intro retryLoop_accept) simp_all
        then show ?thesis by simp
      next
        case False
        then have "retryLoop w r url s e p a resp st =
            (Returned, send_err (PartBadStatus p (StatusCode rsp)) (sent_get p a s e st))"
          using ar None DoResp by (intro retryLoop_status_last) simp_all
        then show ?thesis by simp
      qed
    qed
  qed
next
  case (Suc d)
  then have ar: "a < r" and d: "d = r - (a + 1)" and le: "a + 1 \<le> r" by simp_all
  have retry: ?case
    if step: "retryLoop w r url s e p a resp st =
                 retryLoop w r url s e p (a + 1) resp' (emit (EvSleep p a) (sent_get p a s e st))"
    for resp'
  proof -
    let ?st1 = "emit (EvSleep p a) (sent_get p a s e st)"
    from Suc.hyps(1) [OF d le, of resp' ?st1]
    obtain evs where evs: "trace (snd (retryLoop w r url s e p (a + 1) resp' ?st1)) = trace ?st1 @ evs"
      "\<forall>nm. EvCreate nm \<notin> set evs"
      by blast
    have "trace (snd (retryLoop w r url s e p a resp st)) =
        trace st @ ([EvGet p a (rangeHeader s e), EvSleep p a] @ evs)"
      using step evs(1) by simp
    moreover have "\<forall>nm. EvCreate nm \<notin> set ([EvGet p a (rangeHeader s e), EvSleep p a] @ evs)"
      using evs(2) by simp
    ultimately show ?thesis by blast
  qed
  show ?case
  proof (cases "new_request w ''GET'' url")
    case (Some err)
    then show ?thesis using ar by (simp add: retryLoop_no_request)
  next
    case None
    show ?thesis
    proof (cases "get_result w p a url s e")
      case (DoErr err)
      show ?thesis
      proof (rule retry)
        show "retryLoop w r url s e p a resp st =
            retryLoop w r url s e p (a + 1) None (emit (EvSleep p a) (sent_get p a s e st))"
          using ar None DoErr by (rule retryLoop_error_retry)
      qed
    next
      case (DoResp rsp)
      show ?thesis
      proof (cases "StatusCode rsp = 206 \<or> StatusCode rsp = 200")
        case True
        have "retryLoop w r url s e p a resp st = (Exited (Some rsp), sent_get p a s e st)"
          using ar None DoResp True by (intro retryLoop_accept) simp_all
        then show ?thesis by simp
      next
        case False
        show ?thesis
        proof (rule retry)
          show "retryLoop w r url s e p a resp st =
              retryLoop w r url s e p (a + 1) (Some rsp) (emit (EvSleep p a) (sent_get p a s e st))"
            using ar None DoResp False by (intro retryLoop_status_retry) simp_all
        qed
      qed
    qed
  qed
qed

lemma io_Copy_trace: "trace (snd (io_Copy w dst src srcErr st)) = trace st"
  by (cases "write_limit w dst") (auto simp: io_Copy_def Let_def)

lemma downloadPart_creates:
  assumes "1 \<le> r" and "downloadPart w r url s e p st = Some st'"
  shows "\<exists>evs. trace st' = trace st @ evs \<and>
           (\<forall>nm. EvCreate nm \<in> set evs \<longrightarrow> nm = tempName p)"
proof -
  obtain ex st1 where run: "retryLoop w r url s e p 1 None st = (ex, st1)"
    by (cases "retryLoop w r url s e p 1 None st")
  from retryLoop_no_create [OF assms(1), of w url s e p None st] run
  obtain evs where evs: "trace st1 = trace st @ evs" "\<forall>nm. EvCreate nm \<notin> set evs"
    by auto
  have run': "retryLoop w r url s e p (Suc 0) None st = (ex, st1)" using run by simp
  show ?thesis
  proof (cases ex)
    case Returned
    then have "st' = st1" using assms(2) run' by (simp add: downloadPart_def)
    then show ?thesis using evs by auto
  next
    case (Exited ro)
    show ?thesis
    proof (cases ro)
      case None
      then show ?thesis using assms(2) run' Exited by (simp add: downloadPart_def)
    next
      case (Some rsp)
      show ?thesis
      proof (cases "create_err w (tempName p)")
        case (Some err)
        then have "st' = send_err (PartCreateTempFailed p err) st1"
          using assms(2) run' Exited \<open>ro = Some rsp\<close>
          by (simp add: downloadPart_def os_Create_def)
        then show ?thesis using evs by auto
      next
        case None
        let ?st2 = "emit (EvCreate (tempName p)) (st1\<lparr>fs := (fs st1)(tempName p \<mapsto> [])\<rparr>)"
        obtain res st3 where cp: "io_Copy w (tempName p) (Body rsp) (BodyErr rsp) ?st2 = (res, st3)"
          by (cases "io_Copy w (tempName p) (Body rsp) (BodyErr rsp) ?st2")
        have t3: "trace st3 = trace ?st2"
          using io_Copy_trace [of w "tempName p" "Body rsp" "BodyErr rsp" ?st2] cp by simp
        have "trace st' = trace st3"
          using assms(2) run' Exited \<open>ro = Some rsp\<close> None cp
          by (cases res) (auto simp: downloadPart_def os_Create_def)
        then have "trace st' = trace st @ (evs @ [EvCreate (tempName p)])"
          using t3 evs(1) by simp
        moreover have "\<forall>nm. EvCreate nm \<in> set (evs @ [EvCreate (tempName p)]) \<longrightarrow> nm = tempName p"
          using evs(2) by auto
        ultimately show ?thesis by blast
      qed
    qed
  qed
qed

lemma runParts_creates:
  assumes "1 \<le> r"
  shows "runParts w r url ranges sched st = Some st' \<Longrightarrow>
         \<exists>evs. trace st' = trace st @ evs \<and>
           (\<forall>nm. EvCreate nm \<in> set evs \<longrightarrow> (\<exists>i\<in>set sched. nm = tempName (i + 1)))"
proof (induction sched arbitrary: st)
  case Nil
  then show ?case by simp
next
  case (Cons i sched)
  from Cons.prems obtain st1 where
    dp: "downloadPart w r url (fst (ranges ! i)) (snd (ranges ! i)) (i + 1) st = Some st1"
    and rest: "runParts w r url ranges sched st1 = Some st'"
    by (auto split: option.splits)
  from downloadPart_creates [OF assms dp]
  obtain evs1 where e1: "trace st1 = trace st @ evs1"
    "\<forall>nm. EvCreate nm \<in> set evs1 \<longrightarrow> nm = tempName (i + 1)"
    by blast
  from Cons.IH [OF rest]
  obtain evs2 where e2: "trace st' = trace st1 @ evs2"
    "\<forall>nm. EvCreate nm \<in> set evs2 \<longrightarrow> (\<exists>j\<in>set sched. nm = tempName (j + 1))"
    by blast
  have "trace st' = trace st @ (evs1 @ evs2)" using e1(1) e2(1) by simp
  moreover have "\<forall>nm. EvCreate nm \<in> set (evs1 @ evs2) \<longrightarrow>
      (\<exists>j\<in>set (i # sched). nm = tempName (j + 1))"
    using e1(2) e2(2) by auto
  ultimately show ?case by blast
qed

lemma getFileHeaders_trace:
  "getFileHeaders w url st = (Inr h, st1) \<Longrightarrow> trace st1 = trace st @ [EvHead url]"
  by (auto simp: getFileHeaders_def Do_head_def Let_def
      split: option.splits do_result.splits if_splits prod.splits)

lemma getFileSize_trace:
  "getFileSize w url st = (Inr sz, st1) \<Longrightarrow> trace st1 = trace st @ [EvHead url]"
  by (auto simp: getFileSize_def Do_head_def Let_def
      split: option.splits do_result.splits if_splits prod.splits)

lemmas file_eval = downloadFile_main_def downloadFile_def getFileHeaders_def getFileSize_def
  Do_head_def is_head_def header_Get_def ParseInt_def unsigned_part_def is_digit_def
  digits_val_def digit_val_def NUM_PARTS_def outputPath_def getFileName_def detectFileType_def path_Base_def
  concatLoop.simps os_Remove_def

lemma plan3: "planRanges 4 3 = [(0, - 1), (0, - 1), (0, - 1), (0, 2)]"
  by (simp add: planRanges_map partRange_def mul64_def add64_def sub64_def div64_def wrap64_def
      signed_divide_int_def upt_rec Let_def)

lemma plan12: "planRanges 4 12 = [(0, 2), (3, 5), (6, 8), (9, 11)]"
  by (simp add: planRanges_map partRange_def mul64_def add64_def sub64_def div64_def wrap64_def
      signed_divide_int_def upt_rec Let_def)

lemma plan0: "planRanges 4 0 = [(0, - 1), (0, - 1), (0, - 1), (0, - 1)]"
  by (simp add: planRanges_map partRange_def mul64_def add64_def sub64_def div64_def wrap64_def
      signed_divide_int_def upt_rec Let_def)

section \<open>Facts about metadata and naming\<close>

lemma path_Base_nonempty: "path_Base p \<noteq> []"
  by (simp add: path_Base_def Let_def)

lemma getFileName_without_disposition: "getFileName w [] url = path_Base url"
  by (simp add: getFileName_def path_Base_nonempty)

lemma getFileName_with_disposition:
  "cd \<noteq> [] \<Longrightarrow> parse_media_type w cd = Some (mediatype, params) \<Longrightarrow>
   params ''filename'' = Some filename \<Longrightarrow> getFileName w cd url = filename"
  by (simp add: getFileName_def)

lemma getFileHeaders_reads_misspelled:
  "getFileHeaders w url st = (Inr h, st1) \<Longrightarrow>
   \<exists>resp. do_head w (length (filter is_head (trace st))) url = DoResp resp \<and>
     ContentDisposition h = header_Get (Header resp) ''Content-Dispostion''"
  by (auto simp: getFileHeaders_def Do_head_def Let_def
      split: option.splits do_result.splits if_splits)

lemma unknown_size_is_terminal:
  assumes "getFileHeaders w url st = (Inr fHeaders, st1)"
    and "new_request w ''HEAD'' url = None"
    and "do_head w (length (filter is_head (trace st1))) url = DoResp resp"
    and "StatusCode resp = 200"
    and "header_Get (Header resp) ''Content-Length'' = cl"
    and "cl = [] \<or> ParseInt cl = None"
  shows "downloadFile w n r sched url filepath st =
           (Return (Some (GetSizeFailed
              (if cl = [] then ContentLengthMissing else InvalidContentLength cl))),
            emit (EvHead url) st1)"
  using assms
  by (auto simp: downloadFile_def getFileSize_def Do_head_def Let_def)

section \<open>The round trip of a file that has a byte for every part\<close>

text \<open>
  For a content of at least \<open>n\<close> bytes, a server that answers the first request of
  every part with the bytes asked for, a file system without faults, and an output
  file whose name is not that of a part file (so that the output is none of the part
  files on disk either), the output file holds the content, whatever the order in
  which the parts finish.
\<close>

lemma digit_val_digit_char: "d < 10 \<Longrightarrow> digit_val (digit_char d) = d"
proof -
  assume "d < 10"
  then have "d \<in> {0, 1, 2, 3, 4, 5, 6, 7, 8, 9}" by auto
  then show ?thesis
    by (auto simp: digit_val_def digit_char_def)
qed

lemma digits_val_digits10: "digits_val (digits10 k) = k"
proof (induction k rule: digits10.induct)
  case (1 k)
  show ?case
  proof (cases "k < 10")
    case True
    then show ?thesis
      by (subst digits10.simps) (simp add: digits_val_def digit_val_digit_char)
  next
    case False
    then have "digits_val (digits10 (k div 10)) = k div 10" using 1 by simp
    then show ?thesis using False
      by (subst digits10.simps) (simp add: digits_val_def digit_val_digit_char)
  qed
qed

lemma tempName_inj: "tempName p = tempName q \<Longrightarrow> p = q"
proof -
  assume "tempName p = tempName q"
  then have "digits10 p = digits10 q" by (simp add: tempName_def itoa_def)
  then have "digits_val (digits10 p) = digits_val (digits10 q)" by simp
  then show ?thesis by (simp add: digits_val_digits10)
qed

lemma downloadPart_first_ok:
  assumes "1 \<le> r" and "new_request w ''GET'' url = None"
    and "get_result w p 1 url s e = DoResp rsp"
    and "StatusCode rsp = 206 \<or> StatusCode rsp = 200"
    and "BodyErr rsp = None"
    and "create_err w (tempName p) = None" and "write_limit w (tempName p) = None"
  shows "downloadPart w r url s e p st =
           Some (st\<lparr>fs := (fs st)(tempName p \<mapsto> Body rsp),
                    tempFiles := tempFiles st @ [tempName p],
                    trace := trace st @ [EvGet p 1 (rangeHeader s e), EvCreate (tempName p)]\<rparr>)"
proof -
  have "retryLoop w r url s e p 1 None st = (Exited (Some rsp), sent_get p 1 s e st)"
    using assms(1-4) by (intro retryLoop_accept) simp_all
  then show ?thesis
    using assms(5-7)
    by (simp add: downloadPart_def os_Create_def io_Copy_def file_bytes_def emit_def send_temp_def
        Let_def)
qed


lemma runParts_all_ok:
  assumes "1 \<le> r" and "new_request w ''GET'' url = None"
    and "\<And>x. create_err w x = None" and "\<And>x. write_limit w x = None"
    and "\<forall>i\<in>set sched. \<exists>rsp.
           get_result w (i + 1) 1 url (fst (ranges ! i)) (snd (ranges ! i)) = DoResp rsp \<and>
           (StatusCode rsp = 206 \<or> StatusCode rsp = 200) \<and>
           Body rsp = body i \<and> BodyErr rsp = None"
  shows "\<exists>st'. runParts w r url ranges sched st = Some st' \<and>
           errChan st' = errChan st \<and>
           (\<forall>i\<in>set sched. fs st' (tempName (i + 1)) = Some (body i)) \<and>
           (\<forall>x. (\<forall>i\<in>set sched. x \<noteq> tempName (i + 1)) \<longrightarrow> fs st' x = fs st x)"
  using assms(5)
proof (induction sched arbitrary: st)
  case Nil
  show ?case by simp
next
  case (Cons i sched)
  from Cons.prems obtain rsp where
    rsp: "get_result w (i + 1) 1 url (fst (ranges ! i)) (snd (ranges ! i)) = DoResp rsp"
      "StatusCode rsp = 206 \<or> StatusCode rsp = 200" "Body rsp = body i" "BodyErr rsp = None"
    by auto
  let ?st1 = "st\<lparr>fs := (fs st)(tempName (i + 1) \<mapsto> Body rsp),
                  tempFiles := tempFiles st @ [tempName (i + 1)],
                  trace := trace st @ [EvGet (i + 1) 1 (rangeHeader (fst (ranges ! i)) (snd (ranges ! i))),
                                       EvCreate (tempName (i + 1))]\<rparr>"
  have dp: "downloadPart w r url (fst (ranges ! i)) (snd (ranges ! i)) (i + 1) st = Some ?st1"
    using assms(1,2) rsp(1,2,4) assms(3) assms(4) by (rule downloadPart_first_ok)
  have "\<forall>i\<in>set sched. \<exists>rsp.
           get_result w (i + 1) 1 url (fst (ranges ! i)) (snd (ranges ! i)) = DoResp rsp \<and>
           (StatusCode rsp = 206 \<or> StatusCode rsp = 200) \<and>
           Body rsp = body i \<and> BodyErr rsp = None"
    using Cons.prems by simp
  from Cons.IH [OF this, of ?st1]
  obtain st' where st': "runParts w r url ranges sched ?st1 = Some st'"
    "errChan st' = errChan ?st1"
    "\<forall>j\<in>set sched. fs st' (tempName (j + 1)) = Some (body j)"
    "\<forall>x. (\<forall>j\<in>set sched. x \<noteq> tempName (j + 1)) \<longrightarrow> fs st' x = fs ?st1 x"
    by blast
  have run: "runParts w r url ranges (i # sched) st = Some st'"
    using dp st'(1) by simp
  have here: "fs st' (tempName (i + 1)) = Some (body i)"
  proof (cases "i \<in> set sched")
    case True
    then show ?thesis using st'(3) by blast
  next
    case False
    then have "\<forall>j\<in>set sched. tempName (i + 1) \<noteq> tempName (j + 1)"
      using tempName_inj by fastforce
    then have "fs st' (tempName (i + 1)) = fs ?st1 (tempName (i + 1))" using st'(4) by blast
    then show ?thesis using rsp(3) by simp
  qed
  have frame: "\<forall>x. (\<forall>j\<in>set (i # sched). x \<noteq> tempName (j + 1)) \<longrightarrow> fs st' x = fs st x"
    using st'(4) by simp
  show ?case using run st'(2,3) here frame by simp
qed

lemma concatLoop_ok:
  assumes "write_limit w out = None" and "\<And>i. out \<noteq> tempName i"
    and "fs st out = Some acc"
    and "\<forall>i. k \<le> i \<and> i \<le> n \<longrightarrow> fs st (tempName i) = Some (c i)"
  shows "\<exists>st'. concatLoop w n out k st = (None, st') \<and>
           fs st' out = Some (acc @ concat (map c [k..<n + 1]))"
  using assms(3,4)
proof (induction "n + 1 - k" arbitrary: k st acc)
  case 0
  then have "\<not> k \<le> n" by simp
  then show ?case using "0.prems"(1) by (subst concatLoop.simps) simp
next
  case (Suc d)
  then have kn: "k \<le> n" and d: "d = n + 1 - (k + 1)" by simp_all
  have ck: "fs st (tempName k) = Some (c k)" using Suc.prems(2) kn by simp
  let ?st1 = "st\<lparr>fs := (fs st)(out \<mapsto> acc @ c k)\<rparr>"
  let ?st2 = "os_Remove (tempName k) ?st1"
  have cp: "io_Copy w out (c k) None st = (None, ?st1)"
    using assms(1) Suc.prems(1) by (simp add: io_Copy_def file_bytes_def)
  have step: "concatLoop w n out k st = concatLoop w n out (k + 1) ?st2"
    using kn ck cp by (subst concatLoop.simps) (simp add: Let_def)
  have out2: "fs ?st2 out = Some (acc @ c k)"
    using assms(2) [of k] by (simp add: os_Remove_def)
  have rest: "\<forall>i. k + 1 \<le> i \<and> i \<le> n \<longrightarrow> fs ?st2 (tempName i) = Some (c i)"
  proof (intro allI impI)
    fix i assume i: "k + 1 \<le> i \<and> i \<le> n"
    then have "tempName i \<noteq> tempName k" using tempName_inj [of i k] by auto
    moreover have "tempName i \<noteq> out" using assms(2) [of i] by simp
    moreover have "fs st (tempName i) = Some (c i)" using Suc.prems(2) i by simp
    ultimately show "fs ?st2 (tempName i) = Some (c i)" by (simp add: os_Remove_def)
  qed
  from Suc.hyps(1) [OF d out2 rest]
  obtain st' where st': "concatLoop w n out (k + 1) ?st2 = (None, st')"
    "fs st' out = Some ((acc @ c k) @ concat (map c [k + 1..<n + 1]))"
    by blast
  have "[k..<n + 1] = k # [k + 1..<n + 1]" using kn by (simp add: upt_conv_Cons)
  then show ?case using step st' by simp
qed

lemma concat_chunks:
  "concat (map (\<lambda>i. take b (drop (i * b) xs)) [0..<m]) = take (m * b) xs"
proof (induction m)
  case 0
  show ?case by simp
next
  case (Suc m)
  have "take (Suc m * b) xs = take (m * b) xs @ take b (drop (m * b) xs)"
    using take_add [of "m * b" b xs] by (simp add: add.commute)
  then show ?case using Suc by simp
qed


lemma planRanges_nth:
  assumes "0 < t" "t < 2 ^ 63" "1 \<le> n" "i < n"
  shows "planRanges n t ! i =
          (int i * (t div int n),
           if i = n - 1 then t - 1 else (int i + 1) * (t div int n) - 1)"
  using partRange_closed [OF assms] assms(4) by (simp add: planRanges_map)

lemma planned_range_valid:
  assumes "1 \<le> n" "int n \<le> t" "t < 2 ^ 63" "i < n"
  shows "0 \<le> fst (planRanges n t ! i) \<and>
         fst (planRanges n t ! i) \<le> snd (planRanges n t ! i) \<and>
         snd (planRanges n t ! i) < t"
proof -
  define b where "b = t div int n"
  have t0: "0 < t" using assms by simp
  have b1: "1 \<le> b"
  proof -
    have "int n div int n \<le> t div int n" using assms(2) by (rule zdiv_mono1) (use assms(1) in simp)
    then show ?thesis using assms(1) by (simp add: b_def)
  qed
  have nb: "int n * b \<le> t"
  proof -
    have "int n * (t div int n) + t mod int n = t" by (rule mult_div_mod_eq)
    moreover have "0 \<le> t mod int n" using assms by simp
    ultimately show ?thesis unfolding b_def by linarith
  qed
  have i1: "(int i + 1) * b \<le> int n * b"
    using assms(4) b1 by (intro mult_right_mono) simp_all
  have i0: "0 \<le> int i * b" using b1 by simp
  have ib: "int i * b + b = (int i + 1) * b" by (simp add: algebra_simps)
  have nth: "planRanges n t ! i =
      (int i * b, if i = n - 1 then t - 1 else (int i + 1) * b - 1)"
    using planRanges_nth [OF t0 assms(3,1,4)] by (simp add: b_def)
  have e_lt: "(int i + 1) * b - 1 < t" using i1 nb by linarith
  have s_le: "int i * b \<le> (int i + 1) * b - 1" using ib b1 by linarith
  have s_last: "int i * b \<le> t - 1" using s_le e_lt by linarith
  show ?thesis
  proof (cases "i = n - 1")
    case True
    then have "planRanges n t ! i = (int i * b, t - 1)" using nth by simp
    then show ?thesis using i0 s_last by simp
  next
    case False
    then have "planRanges n t ! i = (int i * b, (int i + 1) * b - 1)" using nth by simp
    then show ?thesis using i0 s_le e_lt by simp
  qed
qed

lemma slices_concat:
  assumes "1 \<le> n" "n \<le> length content" "int (length content) < 2 ^ 63"
  shows "concat (map (\<lambda>i. slice content (fst (planRanges n (int (length content)) ! i))
                                        (snd (planRanges n (int (length content)) ! i)))
                    [0..<n]) = content"
proof -
  define t where "t = int (length content)"
  define b where "b = t div int n"
  define bn where "bn = nat b"
  have "0 < length content" using assms(1,2) by linarith
  then have t0: "0 < t" by (simp add: t_def)
  have nt: "int n \<le> t" and t63: "t < 2 ^ 63"
    using assms by (simp_all add: t_def)
  have b0: "0 \<le> b" using t0 assms(1) by (simp add: b_def pos_imp_zdiv_nonneg_iff)
  have b_bn: "b = int bn" using b0 by (simp add: bn_def)
  have nb: "int n * b \<le> t"
  proof -
    have "int n * (t div int n) + t mod int n = t" by (rule mult_div_mod_eq)
    moreover have "0 \<le> t mod int n" using assms by simp
    ultimately show ?thesis unfolding b_def by linarith
  qed
  have nth: "planRanges n t ! i =
      (int i * b, if i = n - 1 then t - 1 else (int i + 1) * b - 1)" if "i < n" for i
    using planRanges_nth [OF t0 t63 assms(1) that] by (simp add: b_def)
  have inner: "slice content (fst (planRanges n t ! i)) (snd (planRanges n t ! i)) =
      take bn (drop (i * bn) content)" if "i < n - 1" for i
  proof -
    have "i < n" "i \<noteq> n - 1" using that by simp_all
    then have r: "planRanges n t ! i = (int i * b, (int i + 1) * b - 1)" using nth by simp
    have "(int i + 1) * b - 1 - int i * b + 1 = b" by (simp add: algebra_simps)
    moreover have "nat (int i * b) = i * bn" by (simp add: b_bn nat_mult_distrib)
    ultimately show ?thesis by (simp add: r slice_def bn_def)
  qed
  have final: "slice content (fst (planRanges n t ! (n - 1))) (snd (planRanges n t ! (n - 1))) =
      drop ((n - 1) * bn) content"
  proof -
    have r: "planRanges n t ! (n - 1) = (int (n - 1) * b, t - 1)"
      using nth [of "n - 1"] assms(1) by simp
    have s: "nat (int (n - 1) * b) = (n - 1) * bn" by (simp add: b_bn nat_mult_distrib)
    have "length (drop ((n - 1) * bn) content) \<le> nat (t - 1 - int (n - 1) * b + 1)"
      by (simp add: t_def b_bn nat_diff_distrib' flip: of_nat_mult)
    then have "slice content (int (n - 1) * b) (t - 1) = drop ((n - 1) * bn) content"
      unfolding slice_def s by (rule take_all)
    then show ?thesis unfolding r fst_conv snd_conv .
  qed
  have split: "[0..<n] = [0..<n - 1] @ [n - 1]"
    using assms(1) by (cases n) simp_all
  have "concat (map (\<lambda>i. slice content (fst (planRanges n t ! i)) (snd (planRanges n t ! i)))
                    [0..<n])
      = concat (map (\<lambda>i. slice content (fst (planRanges n t ! i)) (snd (planRanges n t ! i)))
                    [0..<n - 1])
        @ slice content (fst (planRanges n t ! (n - 1))) (snd (planRanges n t ! (n - 1)))"
    by (subst split) simp
  also have "map (\<lambda>i. slice content (fst (planRanges n t ! i)) (snd (planRanges n t ! i)))
                    [0..<n - 1]
      = map (\<lambda>i. take bn (drop (i * bn) content)) [0..<n - 1]"
    using inner by simp
  also have "concat (map (\<lambda>i. take bn (drop (i * bn) content)) [0..<n - 1])
      = take ((n - 1) * bn) content"
    by (rule concat_chunks)
  also note final
  finally show ?thesis unfolding t_def by simp
qed


lemma map_shift: "map (\<lambda>i. f (i - 1)) [1..<n + 1] = map f [0..<n]"
proof -
  have "[1..<n + 1] = map Suc [0..<n]" by (simp add: map_Suc_upt)
  then show ?thesis by (simp add: comp_def)
qed

lemma round_trip:
  assumes "1 \<le> n" and "n \<le> length content" and "int (length content) < 2 ^ 63"
    and "1 \<le> r" and "well_scheduled n sched"
    and "getFileHeaders w url st = (Inr fHeaders, st1)"
    and "getFileSize w url st1 = (Inr (int (length content)), st2)"
    and "new_request w ''GET'' url = None"
    and "\<And>x. create_err w x = None" and "\<And>x. write_limit w x = None"
    and "\<And>p s e. 0 \<le> s \<Longrightarrow> s \<le> e \<Longrightarrow> e < int (length content) \<Longrightarrow>
           \<exists>rsp. get_result w p 1 url s e = DoResp rsp \<and>
             (StatusCode rsp = 206 \<or> StatusCode rsp = 200) \<and>
             Body rsp = slice content s e \<and> BodyErr rsp = None"
    and "\<And>partNum. path_Base (outputPath w fHeaders url filepath) \<noteq> tempName partNum"
  shows "\<exists>st'. downloadFile w n r sched url filepath st = (Return None, st') \<and>
           fs st' (outputPath w fHeaders url filepath) = Some content"
proof -
  define t where "t = int (length content)"
  define rs where "rs = planRanges n t"
  define body where "body i = slice content (fst (rs ! i)) (snd (rs ! i))" for i
  define st3 where "st3 = st2\<lparr>tempFiles := [], errChan := []\<rparr>"
  define out where "out = outputPath w fHeaders url filepath"
  have sched: "set sched = {0..<n}" using assms(5) by (simp add: well_scheduled_def)
  have nt: "int n \<le> t" and t63: "t < 2 ^ 63" using assms(2,3) by (simp_all add: t_def)
  have parts: "\<forall>i\<in>set sched. \<exists>rsp.
           get_result w (i + 1) 1 url (fst (rs ! i)) (snd (rs ! i)) = DoResp rsp \<and>
           (StatusCode rsp = 206 \<or> StatusCode rsp = 200) \<and>
           Body rsp = body i \<and> BodyErr rsp = None"
  proof
    fix i assume "i \<in> set sched"
    then have "i < n" using sched by simp
    from planned_range_valid [OF assms(1) nt t63 this]
    have "0 \<le> fst (rs ! i)" "fst (rs ! i) \<le> snd (rs ! i)" "snd (rs ! i) < int (length content)"
      by (simp_all add: rs_def t_def)
    from assms(11) [OF this, of "i + 1"]
    show "\<exists>rsp. get_result w (i + 1) 1 url (fst (rs ! i)) (snd (rs ! i)) = DoResp rsp \<and>
           (StatusCode rsp = 206 \<or> StatusCode rsp = 200) \<and>
           Body rsp = body i \<and> BodyErr rsp = None"
      by (simp add: body_def)
  qed
  from runParts_all_ok [OF assms(4) assms(8) assms(9) assms(10) parts, of st3]
  obtain st4 where st4: "runParts w r url rs sched st3 = Some st4"
    "errChan st4 = errChan st3"
    "\<forall>i\<in>set sched. fs st4 (tempName (i + 1)) = Some (body i)"
    by blast
  define st5 where "st5 = emit (EvCreate out) (st4\<lparr>fs := (fs st4)(out \<mapsto> [])\<rparr>)"
  have cr: "os_Create w out st4 = (None, st5)"
    using assms(9) by (simp add: os_Create_def st5_def)
  have nottemp: "out \<noteq> tempName i" for i
    unfolding out_def by (rule outputPath_not_temp)
  have out5: "fs st5 out = Some []" by (simp add: st5_def)
  have temps: "\<forall>i. 1 \<le> i \<and> i \<le> n \<longrightarrow> fs st5 (tempName i) = Some (body (i - 1))"
  proof (intro allI impI)
    fix i assume i: "1 \<le> i \<and> i \<le> n"
    then have "i - 1 \<in> set sched" using sched by auto
    then have "fs st4 (tempName (i - 1 + 1)) = Some (body (i - 1))" using st4(3) by blast
    moreover have "i - 1 + 1 = i" using i by simp
    ultimately show "fs st5 (tempName i) = Some (body (i - 1))"
      using nottemp [of i] by (simp add: st5_def)
  qed
  from concatLoop_ok [OF assms(10) nottemp out5 temps]
  obtain st6 where st6: "concatLoop w n out 1 st5 = (None, st6)"
    "fs st6 out = Some ([] @ concat (map (\<lambda>i. body (i - 1)) [1..<n + 1]))"
    by blast
  have "concat (map (\<lambda>i. body (i - 1)) [1..<n + 1]) = concat (map body [0..<n])"
    by (simp only: map_shift)
  also have "\<dots> = content"
    using slices_concat [OF assms(1-3)] by (simp add: body_def [abs_def] rs_def t_def)
  finally have content: "fs st6 out = Some content" using st6(2) by simp
  have "errChan st4 = []" using st4(2) by (simp add: st3_def)
  then have "downloadFile w n r sched url filepath st = (Return None, st6)"
    using assms(6,7) st4(1) cr st6(1)
    by (simp add: downloadFile_def Let_def rs_def t_def st3_def out_def)
  then show ?thesis using content by (simp add: out_def)
qed

lemma round_trip_example:
  "\<exists>st'. downloadFile (file_server ''hello world!'') NUM_PARTS MAX_RETRIES [2, 0, 3, 1]
            ''http://h/a.txt'' ''out'' init_state = (Return None, st') \<and>
         fs st' ''out/a.txt'' = Some ''hello world!''"
proof -
  let ?c = "''hello world!''"
  let ?w = "file_server ?c"
  let ?u = "''http://h/a.txt''"
  let ?h = "\<lparr>ContentLegnth = ''12'', ContentDisposition = [], ContentType = []\<rparr>"
  have h1: "1 \<le> NUM_PARTS" "NUM_PARTS \<le> length ?c" "int (length ?c) < 2 ^ 63" "1 \<le> MAX_RETRIES"
    by (simp_all add: NUM_PARTS_def MAX_RETRIES_def)
  have h2: "well_scheduled NUM_PARTS [2, 0, 3, 1]"
    by (auto simp: well_scheduled_def NUM_PARTS_def)
  have h3: "getFileHeaders ?w ?u init_state = (Inr ?h, init_state\<lparr>trace := [EvHead ?u]\<rparr>)"
    by (simp add: file_eval part_eval)
  have h4: "getFileSize ?w ?u (init_state\<lparr>trace := [EvHead ?u]\<rparr>) =
     (Inr (int (length ?c)), init_state\<lparr>trace := [EvHead ?u, EvHead ?u]\<rparr>)"
    by (simp add: file_eval part_eval)
  have h5: "new_request ?w ''GET'' ?u = None" "\<And>x. create_err ?w x = None"
    "\<And>x. write_limit ?w x = None"
    by (simp_all add: file_server_def plain_world_def)
  have h6: "\<exists>rsp. get_result ?w p 1 ?u s e = DoResp rsp \<and>
             (StatusCode rsp = 206 \<or> StatusCode rsp = 200) \<and>
             Body rsp = slice ?c s e \<and> BodyErr rsp = None"
    if "0 \<le> s" "s \<le> e" "e < int (length ?c)" for p s e
    using that
    by (simp add: get_result_def file_server_def plain_world_def range_get_def respond_def)
  have out: "outputPath ?w ?h ?u ''out'' = ''out/a.txt''"
    by (simp add: file_eval part_eval)
  have h7: "path_Base (outputPath ?w ?h ?u ''out'') \<noteq> tempName partNum" for partNum
    by (simp add: out path_Base_def tempName_def)
  from round_trip [OF h1 h2 h3 h4 h5 h6 h7] out
  show ?thesis by simp
qed

section \<open>Claims about the orchestrator\<close>

text \<open>
  Claim C7 (all-or-nothing, error selection), as amended. In a run whose two HEAD
  requests succeed and in which at least one part fails, \<^verbatim>\<open>downloadFile\<close> returns
  exactly one error, and that error is the one of the failing part that finished first:
  \<open>i\<close> is the first index of the completion order whose part reports an error (the
  lowest failing index when the parts finish in index order). The assembler does not
  run: after the two HEAD requests the only files created are part files
  \<^verbatim>\<open>part-N.tmp\<close>, created by the fetchers, and \<^verbatim>\<open>os.Create\<close> is never called on
  the output path.
\<close>

theorem first_reported_error:
  assumes "1 \<le> r"
    and "getFileHeaders w url st = (Inr fHeaders, st1)"
    and "getFileSize w url st1 = (Inr totalSize, st2)"
    and "find (\<lambda>i. part_error w r url (planRanges n totalSize ! i) (i + 1) \<noteq> None) sched = Some i"
  shows "\<exists>st'. downloadFile w n r sched url filepath st =
             (Return (part_error w r url (planRanges n totalSize ! i) (i + 1)), st') \<and>
           part_error w r url (planRanges n totalSize ! i) (i + 1) \<noteq> None \<and>
           (\<exists>evs. trace st' = trace st @ [EvHead url, EvHead url] @ evs \<and>
              (\<forall>nm. EvCreate nm \<in> set evs \<longrightarrow> (\<exists>j\<in>set sched. nm = tempName (j + 1))) \<and>
              EvCreate (outputPath w fHeaders url filepath) \<notin> set evs)"
proof -
  let ?rs = "planRanges n totalSize"
  let ?st3 = "st2\<lparr>tempFiles := [], errChan := []\<rparr>"
  let ?out = "outputPath w fHeaders url filepath"
  from map_filter_find [OF assms(4)]
  obtain e es where es: "List.map_filter (\<lambda>i. part_error w r url (?rs ! i) (i + 1)) sched = e # es"
    "part_error w r url (?rs ! i) (i + 1) = Some e"
    by blast
  from runParts_errors [OF assms(1), of w url ?rs sched ?st3]
  obtain st4 where st4: "runParts w r url ?rs sched ?st3 = Some st4"
    "errChan st4 = errChan ?st3 @ List.map_filter (\<lambda>i. part_error w r url (?rs ! i) (i + 1)) sched"
    by blast
  have ec: "errChan st4 = e # es" using st4(2) es(1) by simp
  have run: "downloadFile w n r sched url filepath st = (Return (Some e), st4)"
    using assms(2,3) st4(1) ec by (simp add: downloadFile_def Let_def)
  from runParts_creates [OF assms(1) st4(1)]
  obtain evs where evs: "trace st4 = trace ?st3 @ evs"
    "\<forall>nm. EvCreate nm \<in> set evs \<longrightarrow> (\<exists>j\<in>set sched. nm = tempName (j + 1))"
    by blast
  have "trace ?st3 = trace st @ [EvHead url, EvHead url]"
    using getFileHeaders_trace [OF assms(2)] getFileSize_trace [OF assms(3)] by simp
  then have tr: "trace st4 = trace st @ [EvHead url, EvHead url] @ evs" using evs(1) by simp
  have "EvCreate ?out \<notin> set evs"
  proof
    assume "EvCreate ?out \<in> set evs"
    then obtain j where "?out = tempName (j + 1)" using evs(2) by blast
    then show False using outputPath_not_temp by blast
  qed
  then show ?thesis using run es(2) tr evs(2) by auto
qed

theorem first_reported_error_witness:
  "1 \<le> MAX_RETRIES \<and>
   getFileHeaders (flaky_server ''hello world!'') ''http://h/a.txt'' init_state =
     (Inr \<lparr>ContentLegnth = ''12'', ContentDisposition = [], ContentType = []\<rparr>,
      init_state\<lparr>trace := [EvHead ''http://h/a.txt'']\<rparr>) \<and>
   getFileSize (flaky_server ''hello world!'') ''http://h/a.txt''
       (init_state\<lparr>trace := [EvHead ''http://h/a.txt'']\<rparr>) =
     (Inr 12, init_state\<lparr>trace := [EvHead ''http://h/a.txt'', EvHead ''http://h/a.txt'']\<rparr>) \<and>
   find (\<lambda>i. part_error (flaky_server ''hello world!'') MAX_RETRIES ''http://h/a.txt''
                 (planRanges NUM_PARTS 12 ! i) (i + 1) \<noteq> None) [2, 0, 1, 3] = Some 2 \<and>
   (\<exists>st'. downloadFile (flaky_server ''hello world!'') NUM_PARTS MAX_RETRIES [2, 0, 1, 3]
             ''http://h/a.txt'' ''out'' init_state =
             (Return (Some (PartGetFailed 3 3 ''connection reset'')), st') \<and>
          EvCreate ''out/a.txt'' \<notin> set (trace st'))"
proof -
  let ?w = "flaky_server ''hello world!''"
  let ?u = "''http://h/a.txt''"
  let ?h = "\<lparr>ContentLegnth = ''12'', ContentDisposition = [], ContentType = []\<rparr>"
  have h1: "1 \<le> MAX_RETRIES" by (simp add: MAX_RETRIES_def)
  have h2: "getFileHeaders ?w ?u init_state = (Inr ?h, init_state\<lparr>trace := [EvHead ?u]\<rparr>)"
    by (simp add: file_eval part_eval flaky_server_def)
  have h3: "getFileSize ?w ?u (init_state\<lparr>trace := [EvHead ?u]\<rparr>) =
     (Inr 12, init_state\<lparr>trace := [EvHead ?u, EvHead ?u]\<rparr>)"
    by (simp add: file_eval part_eval flaky_server_def)
  have pe: "part_error ?w MAX_RETRIES ?u (planRanges NUM_PARTS 12 ! 2) (2 + 1) =
      Some (PartGetFailed 3 3 ''connection reset'')"
    by (simp add: file_eval part_eval part_error_def flaky_server_def flaky_get_def plan12)
  have h4: "find (\<lambda>i. part_error ?w MAX_RETRIES ?u (planRanges NUM_PARTS 12 ! i) (i + 1) \<noteq> None)
      [2, 0, 1, 3] = Some 2"
    using pe by simp
  have out: "outputPath ?w ?h ?u ''out'' = ''out/a.txt''"
    by (simp add: file_eval part_eval flaky_server_def)
  from first_reported_error [OF h1 h2 h3 h4, of "''out''"] pe out
  obtain st' evs where st': "downloadFile ?w NUM_PARTS MAX_RETRIES [2, 0, 1, 3] ?u ''out'' init_state =
             (Return (Some (PartGetFailed 3 3 ''connection reset'')), st')"
    "trace st' = trace init_state @ [EvHead ?u, EvHead ?u] @ evs"
    "EvCreate ''out/a.txt'' \<notin> set evs"
    by auto
  have "EvCreate ''out/a.txt'' \<notin> set (trace st')"
    using st'(2,3) by (simp add: init_state_def)
  then show ?thesis using h1 h2 h3 h4 st'(1) by blast
qed

text \<open>
  Claim C7 as stated fails: parts 1 and 3 both fail, part 3 finishes first, and the
  error returned is the one of part 3, not the one of the lowest failing index, 1.
\<close>

theorem first_reported_error_counterexample:
  "fst (downloadFile_main (flaky_server ''hello world!'') [2, 0, 1, 3] ''http://h/a.txt'' ''out''
          init_state) = Return (Some (PartGetFailed 3 3 ''connection reset'')) \<and>
   part_error (flaky_server ''hello world!'') MAX_RETRIES ''http://h/a.txt''
      (planRanges NUM_PARTS 12 ! 0) 1 = Some (PartGetFailed 1 3 ''connection reset'')"
  by (simp add: file_eval part_eval part_error_def flaky_server_def flaky_get_def plan12)

section \<open>Where the program departs from the specification\<close>

text \<open>
  Claim C1 (round-trip reassembly) does not hold of the program for a file shorter
  than the part count. A 3-byte file is planned as three ranges \<open>[0, -1]\<close> and the
  range \<open>[0, 2]\<close>; a server that honours byte ranges ignores the malformed header
  \<^verbatim>\<open>Range: bytes=0--1\<close> and sends the whole file, and the output holds the file
  four times, with no error reported. A server that answers the malformed header
  with status 416 makes the run fail with that status, and no output file is written.
  (The lemma \<open>round_trip\<close> above is the claim for files of at least as many bytes as
  parts, under the assumptions stated there.)
\<close>

theorem small_file_round_trip_fails:
  "fst (downloadFile_main (file_server ''abc'') [0, 1, 2, 3] ''http://h/a.txt'' ''out'' init_state)
     = Return None \<and>
   fs (snd (downloadFile_main (file_server ''abc'') [0, 1, 2, 3] ''http://h/a.txt'' ''out''
        init_state)) ''out/a.txt'' = Some ''abcabcabcabc'' \<and>
   fst (downloadFile_main (strict_server ''abc'') [0, 1, 2, 3] ''http://h/a.txt'' ''out'' init_state)
     = Return (Some (PartBadStatus 1 416)) \<and>
   fs (snd (downloadFile_main (strict_server ''abc'') [0, 1, 2, 3] ''http://h/a.txt'' ''out''
        init_state)) ''out/a.txt'' = None"
  by (simp add: file_eval part_eval plan3 strict_server_def strict_get_def)

text \<open>
  Claim C3 (small-file policy) does not hold of the program. For a file of 3 bytes and
  4 parts the planner neither clamps the part count nor rejects the file: it yields the
  ranges \<open>[0, -1]\<close> three times and \<open>[0, 2]\<close>, the run goes on without an error, and
  the requests carry the header \<^verbatim>\<open>Range: bytes=0--1\<close>.
\<close>

theorem small_file_degenerate_ranges:
  "planRanges NUM_PARTS 3 = [(0, - 1), (0, - 1), (0, - 1), (0, 2)] \<and>
   fst (downloadFile_main (file_server ''abc'') [0, 1, 2, 3] ''http://h/a.txt'' ''out'' init_state)
     = Return None \<and>
   filter (\<lambda>ev. case ev of EvGet p a h \<Rightarrow> True | _ \<Rightarrow> False)
     (trace (snd (downloadFile_main (file_server ''abc'') [0, 1, 2, 3] ''http://h/a.txt'' ''out''
        init_state))) =
     [EvGet 1 1 ''bytes=0--1'', EvGet 2 1 ''bytes=0--1'', EvGet 3 1 ''bytes=0--1'',
      EvGet 4 1 ''bytes=0-2'']"
  by (simp add: file_eval part_eval plan3)

text \<open>
  Claim C4 (size precondition) does not hold of the program for a size of zero: with
  \<^verbatim>\<open>Content-Length: 0\<close> \<^verbatim>\<open>getFileSize\<close> returns 0 without an error, and the run
  plans four ranges \<open>[0, -1]\<close>, sends the four GET requests and assembles an output
  file. (\<^verbatim>\<open>strconv.ParseInt\<close> takes a negative decimal as well. A header that is
  missing or is not an integer does end the run before any planning: lemma
  \<open>unknown_size_is_terminal\<close>.)
\<close>

theorem zero_size_is_planned:
  "ParseInt ''0'' = Some 0 \<and> ParseInt ''-5'' = Some (- 5) \<and>
   getFileSize (file_server []) ''http://h/a.txt'' init_state =
     (Inr 0, init_state\<lparr>trace := [EvHead ''http://h/a.txt'']\<rparr>) \<and>
   fst (downloadFile_main (file_server []) [0, 1, 2, 3] ''http://h/a.txt'' ''out'' init_state)
     = Return None \<and>
   trace (snd (downloadFile_main (file_server []) [0, 1, 2, 3] ''http://h/a.txt'' ''out''
        init_state)) =
     [EvHead ''http://h/a.txt'', EvHead ''http://h/a.txt'',
      EvGet 1 1 ''bytes=0--1'', EvCreate ''part-1.tmp'',
      EvGet 2 1 ''bytes=0--1'', EvCreate ''part-2.tmp'',
      EvGet 3 1 ''bytes=0--1'', EvCreate ''part-3.tmp'',
      EvGet 4 1 ''bytes=0--1'', EvCreate ''part-4.tmp'',
      EvCreate ''out/a.txt'', EvRemove ''part-1.tmp'', EvRemove ''part-2.tmp'',
      EvRemove ''part-3.tmp'', EvRemove ''part-4.tmp'']"
  by (simp add: file_eval part_eval plan0)

text \<open>
  Claim C8 (naming fallback chain) does not hold of the program. The header is read
  under the name \<^verbatim>\<open>Content-Dispostion\<close>, so the file name that the server sends in
  \<^verbatim>\<open>Content-Disposition\<close> never reaches \<^verbatim>\<open>getFileName\<close> (which would use it): the
  output is named after the URL. And for a URL without a path segment the name is what
  \<^verbatim>\<open>path.Base\<close> makes of the URL, here the host name, not a random placeholder.
\<close>

theorem disposition_header_ignored:
  "fst (getFileHeaders disposition_server ''http://h/download'' init_state) =
     Inr \<lparr>ContentLegnth = ''12'', ContentDisposition = [], ContentType = []\<rparr> \<and>
   getFileName disposition_server ''attachment; filename=report.pdf'' ''http://h/download''
     = ''report.pdf'' \<and>
   fs (snd (downloadFile_main disposition_server [0, 1, 2, 3] ''http://h/download'' ''out''
        init_state)) ''out/download'' = Some ''hello world!'' \<and>
   fs (snd (downloadFile_main disposition_server [0, 1, 2, 3] ''http://h/download'' ''out''
        init_state)) ''out/report.pdf'' = None \<and>
   getFileName disposition_server [] ''http://h/'' = ''h''"
  by (simp add: file_eval part_eval plan12 disposition_server_def)

end
